theory Spec2Isabelle
  imports Main
begin

section \<open>Data model (App.tsx)\<close>

text \<open>
  The generation queue of the image studio: \<^verbatim>\<open>App.tsx\<close> holds the staged reference
  images, the job queue, the gallery and the busy flag; \<^verbatim>\<open>geminiService.ts\<close> builds the
  requests sent to the image API; \<^verbatim>\<open>ReferenceImagePanel.tsx\<close> and
  \<^verbatim>\<open>GenerationPanel.tsx\<close> are the two forms that feed the queue.

  A JavaScript string is a sequence of UTF-16 code units; it is modelled as a
  \<^typ>\<open>string\<close>, each \<^typ>\<open>char\<close> standing for the code unit of the same value, so that
  the strings of the model are those whose code units are below 256. React state is
  modelled by explicit state passing: a state setter called with an updater function applies that function to
  the latest state, a setter called with a value overwrites it.
\<close>

datatype AspectRatio = AR_1_1 | AR_16_9 | AR_9_16 | AR_4_3 | AR_3_4

datatype JobStatus = Pending | Processing | Completed | Failed

record Job =
  id_job :: string
  prompt :: string
  referenceImages :: "string list"
  aspectRatio :: AspectRatio
  status :: JobStatus
  error :: "string option"

record GalleryItem =
  id_item :: string
  src :: string
  prompt_item :: string

text \<open>
  The state of the \<^verbatim>\<open>App\<close> component: the four \<^verbatim>\<open>useState\<close> cells and the
  \<^verbatim>\<open>useRef\<close> cell \<^verbatim>\<open>isProcessingRef\<close>.
\<close>

record App =
  referenceImages_state :: "string list"
  queue :: "Job list"
  gallery :: "GalleryItem list"
  selectedImage :: "GalleryItem option"
  isProcessingRef :: bool

section \<open>Enqueueing (handleAddToQueue)\<close>

text \<open>
  \<^verbatim>\<open>crypto.randomUUID()\<close> is an input of the model: the argument \<open>uuid\<close>.
\<close>

definition handleAddToQueue :: "string \<Rightarrow> AspectRatio \<Rightarrow> string \<Rightarrow> App \<Rightarrow> App" where
  "handleAddToQueue p ar uuid s =
     (let newJob = \<lparr>id_job = uuid, prompt = p, referenceImages = referenceImages_state s,
                     aspectRatio = ar, status = Pending, error = None\<rparr>
      in s\<lparr>queue := queue s @ [newJob], referenceImages_state := []\<rparr>)"

section \<open>The queue processor (processQueue)\<close>

text \<open>
  The three updaters that \<^verbatim>\<open>processQueue\<close> passes to \<^verbatim>\<open>setQueue\<close>. The source writes
  them inline; they carry the names the specification gives to these operations.
\<close>

definition markProcessing :: "string \<Rightarrow> Job list \<Rightarrow> Job list" where
  "markProcessing i prev = map (\<lambda>j. if id_job j = i then j\<lparr>status := Processing\<rparr> else j) prev"

definition markCompleted :: "string \<Rightarrow> Job list \<Rightarrow> Job list" where
  "markCompleted i prev = filter (\<lambda>j. id_job j \<noteq> i) prev"

definition markFailed :: "string \<Rightarrow> string \<Rightarrow> Job list \<Rightarrow> Job list" where
  "markFailed i m prev =
     map (\<lambda>j. if id_job j = i then j\<lparr>status := Failed, error := Some m\<rparr> else j) prev"

text \<open>
  A value thrown by JavaScript code: an \<^verbatim>\<open>Error\<close> object with its message and, when the
  API attached one, its \<^verbatim>\<open>response.promptFeedback.blockReason\<close>; or any other value.
\<close>

datatype thrown = Error string "string option" | NonError

definition errorMessage :: "thrown \<Rightarrow> string" where
  "errorMessage e = (case e of Error m _ \<Rightarrow> m | NonError \<Rightarrow> ''Unknown error'')"

text \<open>
  \<^verbatim>\<open>processQueue\<close> runs in two atomic phases, separated by the \<^verbatim>\<open>await\<close> of the
  provider call. The first phase reads the \<^verbatim>\<open>queue\<close> captured by the callback's closure
  (the argument \<open>snapshot\<close>), while \<^verbatim>\<open>setQueue\<close> updates the latest state. It returns
  the selected job, which the suspended call keeps until the provider answers, or
  \<open>None\<close> when the tick returns at once.
\<close>

definition processQueue_begin :: "Job list \<Rightarrow> App \<Rightarrow> Job option \<times> App" where
  "processQueue_begin snapshot s =
     (if isProcessingRef s \<or> length snapshot = 0 then (None, s)
      else case find (\<lambda>j. status j = Pending) snapshot of
             None \<Rightarrow> (None, s)
           | Some job \<Rightarrow>
               (Some job,
                s\<lparr>isProcessingRef := True, queue := markProcessing (id_job job) (queue s)\<rparr>))"

definition processQueue_try :: "Job \<Rightarrow> string \<Rightarrow> string \<Rightarrow> App \<Rightarrow> App" where
  "processQueue_try job imageUrl uuid s =
     (let newGalleryItem = \<lparr>id_item = uuid, src = imageUrl, prompt_item = prompt job\<rparr>
      in s\<lparr>gallery := newGalleryItem # gallery s,
            queue := markCompleted (id_job job) (queue s)\<rparr>)"

definition processQueue_catch :: "Job \<Rightarrow> thrown \<Rightarrow> App \<Rightarrow> App" where
  "processQueue_catch job e s = s\<lparr>queue := markFailed (id_job job) (errorMessage e) (queue s)\<rparr>"

definition processQueue_finally :: "App \<Rightarrow> App" where
  "processQueue_finally s = s\<lparr>isProcessingRef := False\<rparr>"

text \<open>
  The second phase: \<open>outcome\<close> is what \<^verbatim>\<open>await generateImage(...)\<close> produced, a thrown
  value or the image URL.
\<close>

definition processQueue_resume :: "Job \<Rightarrow> thrown + string \<Rightarrow> string \<Rightarrow> App \<Rightarrow> App" where
  "processQueue_resume job outcome uuid s =
     processQueue_finally
       (case outcome of
          Inr imageUrl \<Rightarrow> processQueue_try job imageUrl uuid s
        | Inl e \<Rightarrow> processQueue_catch job e s)"

section \<open>Upscaling (handleUpscaleImage)\<close>

definition handleUpscaleImage :: "string \<Rightarrow> string \<Rightarrow> App \<Rightarrow> App" where
  "handleUpscaleImage itemId newSrc s =
     s\<lparr>gallery := map (\<lambda>item. if id_item item = itemId then item\<lparr>src := newSrc\<rparr> else item)
                      (gallery s),
       selectedImage :=
         (case selectedImage s of
            None \<Rightarrow> None
          | Some prevSelected \<Rightarrow>
              if id_item prevSelected = itemId then Some (prevSelected\<lparr>src := newSrc\<rparr>)
              else Some prevSelected)\<rparr>"

section \<open>The image service (geminiService.ts)\<close>

text \<open>
  A part of a multimodal request or response: inline data (mime type and base64 payload)
  or text.
\<close>

datatype part = InlineData string string | TextPart string

datatype Modality = IMAGE | TEXT

record GenerateContentParameters =
  model :: string
  parts :: "part list"
  responseModalities :: "Modality list"

record GenerateImagesParameters =
  model_images :: string
  prompt_images :: string
  numberOfImages :: nat
  outputMimeType :: string
  aspectRatio_images :: AspectRatio

text \<open>
  The client of the external API, \<^verbatim>\<open>ai.models\<close>. Each call either throws or returns a
  response, of which the service reads one path only:
  \<^verbatim>\<open>response.candidates?.[0]?.content?.parts\<close> (\<open>None\<close> when undefined) and
  \<^verbatim>\<open>response.generatedImages?.[0]?.image?.imageBytes\<close> (\<open>None\<close> when undefined).
\<close>

record GoogleGenAI =
  generateContent :: "GenerateContentParameters \<Rightarrow> thrown + part list option"
  generateImages :: "GenerateImagesParameters \<Rightarrow> thrown + string option"

text \<open>
  The match of \<^verbatim>\<open>/^data:(.+);base64,(.+)$/\<close>: the string is \<^verbatim>\<open>data:\<close>, a non-empty
  first group, \<^verbatim>\<open>;base64,\<close> and a non-empty second group, with no line terminator in
  either group; the first group is greedy, so it is the longest one possible. Of the four
  line terminators of JavaScript, line feed and carriage return have code units below 256
  (the other two are U+2028 and U+2029).
\<close>

definition lineTerminator :: "char \<Rightarrow> bool" where
  "lineTerminator c = (c = CHR 0x0A \<or> c = CHR 0x0D)"

definition match_dataUrl :: "string \<Rightarrow> (string \<times> string) option" where
  "match_dataUrl s =
     (if take 5 s = ''data:'' then
        (let r = drop 5 s in
         if list_ex lineTerminator r then None
         else case filter (\<lambda>k. take 8 (drop k r) = '';base64,'' \<and> k + 8 < length r)
                          (rev [1..<length r]) of
                [] \<Rightarrow> None
              | k # _ \<Rightarrow> Some (take k r, drop (k + 8) r))
      else None)"

definition fileToGenerativePart :: "string \<Rightarrow> thrown + part" where
  "fileToGenerativePart base64 =
     (case match_dataUrl base64 of
        None \<Rightarrow> Inl (Error ''Invalid base64 string format'' None)
      | Some (mimeType, data) \<Rightarrow> Inr (InlineData mimeType data))"

text \<open>\<^verbatim>\<open>referenceImages.map(fileToGenerativePart)\<close>: the first throw ends the map.\<close>

fun map_fileToGenerativePart :: "string list \<Rightarrow> thrown + part list" where
  "map_fileToGenerativePart [] = Inr []"
| "map_fileToGenerativePart (r # rs) =
     (case fileToGenerativePart r of
        Inl e \<Rightarrow> Inl e
      | Inr p \<Rightarrow>
          (case map_fileToGenerativePart rs of
             Inl e \<Rightarrow> Inl e
           | Inr ps \<Rightarrow> Inr (p # ps)))"

definition isInlineData :: "part \<Rightarrow> bool" where
  "isInlineData p = (case p of InlineData _ _ \<Rightarrow> True | TextPart _ \<Rightarrow> False)"

text \<open>Reading the image out of a multimodal response, or throwing when there is none.\<close>

definition multimodalResult :: "part list option \<Rightarrow> thrown + string" where
  "multimodalResult response =
     (case (case response of None \<Rightarrow> None | Some ps \<Rightarrow> find isInlineData ps) of
        Some (InlineData mimeType base64ImageBytes) \<Rightarrow>
          Inr (''data:'' @ mimeType @ '';base64,'' @ base64ImageBytes)
      | _ \<Rightarrow>
          Inl (Error ''Image generation failed: No image data received from multimodal API.''
                 None))"

definition textToImageRequest :: "string \<Rightarrow> AspectRatio \<Rightarrow> GenerateImagesParameters" where
  "textToImageRequest p ar =
     \<lparr>model_images = ''imagen-4.0-generate-001'', prompt_images = p, numberOfImages = 1,
      outputMimeType = ''image/png'', aspectRatio_images = ar\<rparr>"

definition textToImageResult :: "string option \<Rightarrow> thrown + string" where
  "textToImageResult response =
     (case response of
        Some base64ImageBytes \<Rightarrow>
          if base64ImageBytes \<noteq> [] then Inr (''data:image/png;base64,'' @ base64ImageBytes)
          else Inl (Error ''Image generation failed: No image data received from API.'' None)
      | None \<Rightarrow> Inl (Error ''Image generation failed: No image data received from API.'' None))"

text \<open>The \<^verbatim>\<open>catch\<close> clause of \<^verbatim>\<open>generateImage\<close>: it always throws a fresh \<^verbatim>\<open>Error\<close>.\<close>

definition generateImage_catch :: "thrown \<Rightarrow> thrown" where
  "generateImage_catch e =
     (case e of
        NonError \<Rightarrow> Error ''An unknown error occurred during image generation.'' None
      | Error m blockReason \<Rightarrow>
          (case blockReason of
             None \<Rightarrow> Error m None
           | Some b \<Rightarrow>
               if b \<noteq> [] then Error (''Request blocked: '' @ b @ ''.'') None
               else Error m None))"

text \<open>
  The repository holds two versions of \<^verbatim>\<open>generateImage\<close>. The one beside \<^verbatim>\<open>App.tsx\<close>
  (the module that also exports \<^verbatim>\<open>upscaleImage\<close>, which the modal passed
  \<^verbatim>\<open>onUpscale\<close> imports) sends the first reference image only; it logs a warning when
  more than one image was given. \<open>multimodalRequest p first rest\<close> is the request it
  passes to \<^verbatim>\<open>ai.models.generateContent\<close> when \<^verbatim>\<open>referenceImages\<close> is \<open>first # rest\<close>;
  it reads \<^verbatim>\<open>referenceImages[0]\<close> only.
\<close>

definition multimodalRequest :: "string \<Rightarrow> string \<Rightarrow> string list \<Rightarrow> thrown + GenerateContentParameters" where
  "multimodalRequest p first rest =
     (case fileToGenerativePart first of
        Inl e \<Rightarrow> Inl e
      | Inr imagePart \<Rightarrow>
          Inr \<lparr>model = ''gemini-2.5-flash-image-preview'',
               parts = [imagePart, TextPart p],
               responseModalities = [IMAGE, TEXT]\<rparr>)"

definition generateImage_try :: "GoogleGenAI \<Rightarrow> string \<Rightarrow> AspectRatio \<Rightarrow> string list \<Rightarrow> thrown + string" where
  "generateImage_try ai p ar refs =
     (case refs of
        first # rest \<Rightarrow>
          (case multimodalRequest p first rest of
             Inl e \<Rightarrow> Inl e
           | Inr request \<Rightarrow>
               (case generateContent ai request of
                  Inl e \<Rightarrow> Inl e
                | Inr response \<Rightarrow> multimodalResult response))
      | [] \<Rightarrow>
          (case generateImages ai (textToImageRequest p ar) of
             Inl e \<Rightarrow> Inl e
           | Inr response \<Rightarrow> textToImageResult response))"

definition generateImage :: "GoogleGenAI \<Rightarrow> string \<Rightarrow> AspectRatio \<Rightarrow> string list \<Rightarrow> thrown + string" where
  "generateImage ai p ar refs =
     (case generateImage_try ai p ar refs of
        Inl e \<Rightarrow> Inl (generateImage_catch e)
      | Inr imageUrl \<Rightarrow> Inr imageUrl)"

text \<open>
  The other version of the service (it has no \<^verbatim>\<open>upscaleImage\<close>) sends every reference
  image. The two versions differ in the request only.
\<close>

definition multimodalRequest_all :: "string \<Rightarrow> string list \<Rightarrow> thrown + GenerateContentParameters" where
  "multimodalRequest_all p refs =
     (case map_fileToGenerativePart refs of
        Inl e \<Rightarrow> Inl e
      | Inr imageParts \<Rightarrow>
          Inr \<lparr>model = ''gemini-2.5-flash-image-preview'',
               parts = imageParts @ [TextPart p],
               responseModalities = [IMAGE, TEXT]\<rparr>)"

definition generateImage_try_all :: "GoogleGenAI \<Rightarrow> string \<Rightarrow> AspectRatio \<Rightarrow> string list \<Rightarrow> thrown + string" where
  "generateImage_try_all ai p ar refs =
     (if length refs > 0 then
        (case multimodalRequest_all p refs of
           Inl e \<Rightarrow> Inl e
         | Inr request \<Rightarrow>
             (case generateContent ai request of
                Inl e \<Rightarrow> Inl e
              | Inr response \<Rightarrow> multimodalResult response))
      else
        (case generateImages ai (textToImageRequest p ar) of
           Inl e \<Rightarrow> Inl e
         | Inr response \<Rightarrow> textToImageResult response))"

definition generateImage_all :: "GoogleGenAI \<Rightarrow> string \<Rightarrow> AspectRatio \<Rightarrow> string list \<Rightarrow> thrown + string" where
  "generateImage_all ai p ar refs =
     (case generateImage_try_all ai p ar refs of
        Inl e \<Rightarrow> Inl (generateImage_catch e)
      | Inr imageUrl \<Rightarrow> Inr imageUrl)"

text \<open>The provider call of \<^verbatim>\<open>processQueue\<close>, made with the fields of the selected job.\<close>

definition processQueue_await :: "GoogleGenAI \<Rightarrow> Job \<Rightarrow> thrown + string" where
  "processQueue_await ai job = generateImage ai (prompt job) (aspectRatio job) (referenceImages job)"

section \<open>Staging reference images (ReferenceImagePanel.tsx)\<close>

definition MAX_IMAGES :: nat where
  "MAX_IMAGES = 4"

text \<open>
  \<^verbatim>\<open>Array.prototype.slice(0, end)\<close>: a negative \<open>end\<close> counts from the end of the array.
\<close>

definition slice0 :: "'a list \<Rightarrow> int \<Rightarrow> 'a list" where
  "slice0 xs e =
     (let len = int (length xs);
          final = (if e < 0 then max (len + e) 0 else min e len)
      in take (nat final) xs)"

text \<open>
  A selected file is modelled by what its \<^verbatim>\<open>FileReader\<close> does: \<^verbatim>\<open>onload\<close> with a data
  URL, or \<^verbatim>\<open>onerror\<close>. \<^verbatim>\<open>Promise.all\<close> rejects when one of the reads does.
\<close>

datatype File = Readable string | Unreadable

definition readAsDataURL :: "File \<Rightarrow> string option" where
  "readAsDataURL f = (case f of Readable url \<Rightarrow> Some url | Unreadable \<Rightarrow> None)"

fun promise_all :: "'a option list \<Rightarrow> 'a list option" where
  "promise_all [] = Some []"
| "promise_all (None # _) = None"
| "promise_all (Some x # ps) = (case promise_all ps of None \<Rightarrow> None | Some xs \<Rightarrow> Some (x # xs))"

text \<open>
  \<open>handleImageUpload images fs\<close> is the list handed to \<^verbatim>\<open>onImagesChange\<close>, or \<open>None\<close>
  when the handler does not call it (no file list, or a failed read). \<open>images\<close> is the
  panel's \<^verbatim>\<open>images\<close> prop.
\<close>

definition handleImageUpload :: "string list \<Rightarrow> File list option \<Rightarrow> string list option" where
  "handleImageUpload images fs =
     (case fs of
        None \<Rightarrow> None
      | Some target_files \<Rightarrow>
          (let files = slice0 target_files (int MAX_IMAGES - int (length images)) in
           case promise_all (map readAsDataURL files) of
             None \<Rightarrow> None
           | Some newImages \<Rightarrow> Some (images @ newImages)))"

definition handleRemoveImage :: "string list \<Rightarrow> nat \<Rightarrow> string list" where
  "handleRemoveImage images index =
     map snd (filter (\<lambda>(i, _). i \<noteq> index) (enumerate 0 images))"

text \<open>\<^verbatim>\<open>onImagesChange\<close> is \<^verbatim>\<open>setReferenceImages\<close>.\<close>

definition onImagesChange :: "string list option \<Rightarrow> App \<Rightarrow> App" where
  "onImagesChange r s = (case r of None \<Rightarrow> s | Some images \<Rightarrow> s\<lparr>referenceImages_state := images\<rparr>)"

section \<open>The prompt form (GenerationPanel.tsx)\<close>

record GenerationPanel =
  prompt_panel :: string
  aspectRatio_panel :: AspectRatio
  isAdding :: bool

text \<open>
  \<^verbatim>\<open>String.prototype.trim\<close> removes white space and line terminators at both ends. Those
  with a code unit below 256 are tab, line feed, vertical tab, form feed, carriage return,
  space and no-break space (U+00A0); the others (U+1680, U+2000 to U+200A, U+2028, U+2029,
  U+202F, U+205F, U+3000 and U+FEFF) lie above.
\<close>

definition whiteSpace :: "char \<Rightarrow> bool" where
  "whiteSpace c =
     (c \<in> {CHR 0x09, CHR 0x0A, CHR 0x0B, CHR 0x0C, CHR 0x0D, CHR 0x20, CHR 0xA0})"

definition trim :: "string \<Rightarrow> string" where
  "trim s = rev (dropWhile whiteSpace (rev (dropWhile whiteSpace s)))"

text \<open>
  \<open>handleSubmit\<close> with \<^verbatim>\<open>onAddToQueue = handleAddToQueue\<close>; \<open>uuid\<close> is the id that
  \<^verbatim>\<open>crypto.randomUUID()\<close> would return. An empty string is falsy.
\<close>

definition handleSubmit :: "string \<Rightarrow> GenerationPanel \<times> App \<Rightarrow> GenerationPanel \<times> App" where
  "handleSubmit uuid ps =
     (let panel = fst ps; s = snd ps in
      if trim (prompt_panel panel) \<noteq> [] \<and> \<not> isAdding panel then
        (panel\<lparr>prompt_panel := [], isAdding := False\<rparr>,
         handleAddToQueue (prompt_panel panel) (aspectRatio_panel panel) uuid s)
      else (panel, s))"

section \<open>The running application\<close>

text \<open>
  A configuration is the state of \<^verbatim>\<open>App\<close> together with the suspended calls of
  \<^verbatim>\<open>processQueue\<close>: each waits for its provider call and holds the job it selected.
\<close>

record config =
  app :: App
  inflight :: "Job list"

text \<open>
  The events of a run. \<open>Tick snapshot\<close> is a timer tick of a \<^verbatim>\<open>processQueue\<close> whose
  closure holds \<open>snapshot\<close> as its \<^verbatim>\<open>queue\<close>; \<open>Settle k outcome uuid\<close> resumes the
  \<open>k\<close>-th suspended call with the outcome of its provider call.
\<close>

datatype event =
    AddToQueue string AspectRatio string
  | Tick "Job list"
  | Settle nat "thrown + string" string
  | Upscale string string
  | ImageUpload "File list option"
  | RemoveImage nat

fun step :: "event \<Rightarrow> config \<Rightarrow> config" where
  "step (AddToQueue p ar uuid) c = c\<lparr>app := handleAddToQueue p ar uuid (app c)\<rparr>"
| "step (Tick snapshot) c =
     (case processQueue_begin snapshot (app c) of
        (None, s) \<Rightarrow> c\<lparr>app := s\<rparr>
      | (Some job, s) \<Rightarrow> c\<lparr>app := s, inflight := inflight c @ [job]\<rparr>)"
| "step (Settle k outcome uuid) c =
     (if k < length (inflight c) then
        c\<lparr>app := processQueue_resume (inflight c ! k) outcome uuid (app c),
          inflight := take k (inflight c) @ drop (Suc k) (inflight c)\<rparr>
      else c)"
| "step (Upscale itemId newSrc) c = c\<lparr>app := handleUpscaleImage itemId newSrc (app c)\<rparr>"
| "step (ImageUpload fs) c =
     c\<lparr>app := onImagesChange (handleImageUpload (referenceImages_state (app c)) fs) (app c)\<rparr>"
| "step (RemoveImage index) c =
     c\<lparr>app := (app c)\<lparr>referenceImages_state :=
                          handleRemoveImage (referenceImages_state (app c)) index\<rparr>\<rparr>"

fun run :: "config \<Rightarrow> event list \<Rightarrow> config" where
  "run c [] = c"
| "run c (e # es) = run (step e c) es"

text \<open>
  What the environment guarantees of an event: \<^verbatim>\<open>crypto.randomUUID()\<close> returns an id that
  no job of the application carries, and only a suspended call can be resumed.
\<close>

fun enabled :: "config \<Rightarrow> event \<Rightarrow> bool" where
  "enabled c (AddToQueue p ar uuid) =
     (uuid \<notin> id_job ` set (queue (app c)) \<and> uuid \<notin> id_job ` set (inflight c))"
| "enabled c (Settle k outcome uuid) = (k < length (inflight c))"
| "enabled c _ = True"

fun admissible :: "config \<Rightarrow> event list \<Rightarrow> bool" where
  "admissible c [] = True"
| "admissible c (e # es) = (enabled c e \<and> admissible (step e c) es)"

text \<open>
  A run is rendered when the closure of each of its ticks holds the queue as it is at
  that tick: React has rendered the latest state, and the effect has replaced the timer,
  before the timer fires. \<^verbatim>\<open>useCallback(..., [queue])\<close> and the timer effect bring this
  about after every change of the queue, but not at once: the busy flag is cleared in the
  \<^verbatim>\<open>finally\<close> clause before the next render, and until the effect has run the timer
  still calls the callback of an earlier render. So runs need not be rendered.
\<close>

fun rendered :: "config \<Rightarrow> event list \<Rightarrow> bool" where
  "rendered c [] = True"
| "rendered c (e # es) =
     ((case e of Tick snapshot \<Rightarrow> snapshot = queue (app c) | _ \<Rightarrow> True) \<and> rendered (step e c) es)"

text \<open>The application after mounting, with the gallery \<open>g\<close> loaded from local storage.\<close>

definition initial :: "GalleryItem list \<Rightarrow> config" where
  "initial g =
     \<lparr>app = \<lparr>referenceImages_state = [], queue = [], gallery = g, selectedImage = None,
             isProcessingRef = False\<rparr>,
      inflight = []\<rparr>"

section \<open>Invariants of a run\<close>

text \<open>
  The single-flight invariant: job ids are distinct; the busy flag is set exactly while one
  call of \<^verbatim>\<open>processQueue\<close> is suspended, and then every job marked as processing
  carries the id of the job that call selected; with no suspended call, no job is marked
  as processing.
\<close>

definition single_flight :: "config \<Rightarrow> bool" where
  "single_flight c \<longleftrightarrow>
     distinct (map id_job (queue (app c))) \<and>
     (case inflight c of
        [] \<Rightarrow> \<not> isProcessingRef (app c) \<and> (\<forall>j\<in>set (queue (app c)). status j \<noteq> Processing)
      | J # rest \<Rightarrow>
          rest = [] \<and> isProcessingRef (app c) \<and>
          (\<forall>j\<in>set (queue (app c)). status j = Processing \<longrightarrow> id_job j = id_job J))"

text \<open>
  In a rendered run every suspended call also finds its job in the queue, marked as
  processing.
\<close>

definition tracked :: "config \<Rightarrow> bool" where
  "tracked c \<longleftrightarrow>
     single_flight c \<and> (\<forall>J\<in>set (inflight c). J\<lparr>status := Processing\<rparr> \<in> set (queue (app c)))"

text \<open>
  The ids of the jobs a run submits, and of the jobs its ticks start, each in order of time;
  and the ids of the pending jobs of a queue, in queue order.
\<close>

fun submitted :: "event list \<Rightarrow> string list" where
  "submitted [] = []"
| "submitted (AddToQueue p ar uuid # es) = uuid # submitted es"
| "submitted (_ # es) = submitted es"

fun started :: "config \<Rightarrow> event list \<Rightarrow> string list" where
  "started c [] = []"
| "started c (e # es) =
     (case e of
        Tick snapshot \<Rightarrow>
          (case fst (processQueue_begin snapshot (app c)) of
             None \<Rightarrow> []
           | Some job \<Rightarrow> [id_job job])
      | _ \<Rightarrow> [])
     @ started (step e c) es"

definition pendingIds :: "Job list \<Rightarrow> string list" where
  "pendingIds q = map id_job (filter (\<lambda>j. status j = Pending) q)"

text \<open>The staging cap: at most \<open>MAX_IMAGES\<close> images are staged, and each job holds at most as many.\<close>

definition staged_bound :: "config \<Rightarrow> bool" where
  "staged_bound c \<longleftrightarrow>
     length (referenceImages_state (app c)) \<le> MAX_IMAGES \<and>
     (\<forall>j\<in>set (queue (app c)). length (referenceImages j) \<le> MAX_IMAGES)"

section \<open>Scenario data\<close>

text \<open>The jobs, gallery items and states on which the theorems below are exercised.\<close>

definition balloon :: Job where
  "balloon = \<lparr>id_job = ''j1'', prompt = ''A red balloon'', referenceImages = [],
              aspectRatio = AR_1_1, status = Pending, error = None\<rparr>"

definition kite :: Job where
  "kite = \<lparr>id_job = ''j2'', prompt = ''A blue kite'', referenceImages = [],
           aspectRatio = AR_16_9, status = Pending, error = None\<rparr>"

definition cat :: GalleryItem where
  "cat = \<lparr>id_item = ''g1'', src = ''data:image/png;base64,CAT'', prompt_item = ''a cat''\<rparr>"

definition dog :: GalleryItem where
  "dog = \<lparr>id_item = ''g2'', src = ''data:image/png;base64,DOG'', prompt_item = ''a dog''\<rparr>"

text \<open>The balloon job is in flight, the kite job waits, the gallery holds two items.\<close>

definition busy_app :: App where
  "busy_app = \<lparr>referenceImages_state = [],
                queue = [balloon\<lparr>status := Processing\<rparr>, kite],
                gallery = [cat, dog], selectedImage = None, isProcessingRef = True\<rparr>"

definition busy_config :: config where
  "busy_config = \<lparr>app = busy_app, inflight = [balloon]\<rparr>"

text \<open>Two jobs are enqueued back to back, then the timer ticks once.\<close>

definition two_jobs :: "event list" where
  "two_jobs = [AddToQueue ''A red balloon'' AR_1_1 ''j1'',
               AddToQueue ''A blue kite'' AR_16_9 ''j2'',
               Tick [balloon, kite]]"

definition enqueue_two :: "event list" where
  "enqueue_two = [AddToQueue ''A red balloon'' AR_1_1 ''j1'',
                  AddToQueue ''A blue kite'' AR_16_9 ''j2'']"

text \<open>The provider rejects the first job; the next tick starts the second.\<close>

definition fail_then_next :: "event list" where
  "fail_then_next =
     two_jobs @
     [Settle 0 (Inl (Error ''Request blocked: SAFETY.'' None)) ''g3'',
      Tick [balloon\<lparr>status := Failed, error := Some ''Request blocked: SAFETY.''\<rparr>, kite]]"

definition idle_config :: config where
  "idle_config =
     \<lparr>app = \<lparr>referenceImages_state = [], queue = [balloon, kite], gallery = [cat, dog],
             selectedImage = None, isProcessingRef = False\<rparr>,
      inflight = []\<rparr>"

text \<open>After the rejection the timer ticks again and the second job succeeds.\<close>

definition failed_balloon :: Job where
  "failed_balloon = balloon\<lparr>status := Failed, error := Some ''Request blocked: SAFETY.''\<rparr>"

definition after_failure :: "event list" where
  "after_failure = [Tick [failed_balloon, kite],
                    Settle 0 (Inr ''data:image/png;base64,KITE'') ''g4'']"

text \<open>Five images are offered to an empty staging area.\<close>

definition five_images :: "string list" where
  "five_images = [''data:image/png;base64,A1'', ''data:image/png;base64,A2'',
     ''data:image/png;base64,A3'', ''data:image/png;base64,A4'', ''data:image/png;base64,A5'']"

text \<open>Two states of the prompt form (in the first the prompt is a space, a no-break space and a tab), and a client that answers with the parts it was sent, last part first.\<close>

definition blank_panel :: GenerationPanel where
  "blank_panel = \<lparr>prompt_panel = [CHR 0x20, CHR 0xA0, CHR 0x09], aspectRatio_panel = AR_1_1,
                  isAdding = False\<rparr>"

definition balloon_panel :: GenerationPanel where
  "balloon_panel = \<lparr>prompt_panel = ''A red balloon'', aspectRatio_panel = AR_1_1, isAdding = False\<rparr>"

definition echo_ai :: GoogleGenAI where
  "echo_ai = \<lparr>generateContent = (\<lambda>request. Inr (Some (rev (parts request)))),
              generateImages = (\<lambda>request. Inr None)\<rparr>"

text \<open>
  Runs with a stale tick. In the first the provider rejects the balloon job and the timer
  then fires with the callback of the render in which both jobs were pending; in the
  second that repeated call succeeds. In the third the balloon job completes and the
  timer fires with the callback of the render in which it was pending.
\<close>

definition stale_retry :: "event list" where
  "stale_retry =
     two_jobs @
     [Settle 0 (Inl (Error ''Request blocked: SAFETY.'' None)) ''g3'',
      Tick [balloon, kite]]"

definition stale_retry_succeeds :: "event list" where
  "stale_retry_succeeds =
     stale_retry @ [Settle 0 (Inr ''data:image/png;base64,BALLOON'') ''g4'']"

definition stale_completed :: "event list" where
  "stale_completed =
     [AddToQueue ''A red balloon'' AR_1_1 ''j1'',
      Tick [balloon],
      Settle 0 (Inr ''data:image/png;base64,BALLOON'') ''g3'',
      Tick [balloon]]"

section \<open>Evaluating the scenarios\<close>

lemmas scenario_defs =
  enqueue_two_def two_jobs_def fail_then_next_def idle_config_def busy_config_def busy_app_def
  initial_def balloon_def kite_def

lemmas operation_defs =
  handleAddToQueue_def processQueue_begin_def processQueue_resume_def processQueue_try_def
  processQueue_catch_def processQueue_finally_def markProcessing_def markCompleted_def
  markFailed_def errorMessage_def

lemmas stale_defs = stale_retry_def stale_retry_succeeds_def stale_completed_def failed_balloon_def

section \<open>Queue operations on absent ids\<close>

text \<open>
  C8: removing a job on success (\<open>markCompleted\<close>) or marking it failed (\<open>markFailed\<close>)
  with an id that no job of the queue carries returns the queue unchanged; both are total
  functions on lists, so no error is raised.
\<close>

theorem mark_absent_noop:
  assumes "i \<notin> id_job ` set q"
  shows "markCompleted i q = q \<and> markFailed i m q = q"
proof -
  from assms have ne: "\<And>j. j \<in> set q \<Longrightarrow> id_job j \<noteq> i"
    by blast
  have "markCompleted i q = q"
    unfolding markCompleted_def by (rule filter_True) (simp add: ne)
  moreover have "markFailed i m q = q"
    unfolding markFailed_def by (rule map_idI) (simp add: ne)
  ultimately show ?thesis ..
qed

theorem mark_absent_noop_witness:
  "''j9'' \<notin> id_job ` set [balloon, kite]
   \<and> markCompleted ''j9'' [balloon, kite] = [balloon, kite]
   \<and> markFailed ''j9'' ''Request blocked: SAFETY.'' [balloon, kite] = [balloon, kite]"
proof -
  have h: "''j9'' \<notin> id_job ` set [balloon, kite]"
    by (simp add: balloon_def kite_def)
  from mark_absent_noop [OF h, of "''Request blocked: SAFETY.''"] h show ?thesis
    by blast
qed

section \<open>The frame of an upscale\<close>

lemma upscale_gallery:
  "gallery (handleUpscaleImage itemId newSrc s) =
     map (\<lambda>item. if id_item item = itemId then item\<lparr>src := newSrc\<rparr> else item) (gallery s)"
  by (simp add: handleUpscaleImage_def)

text \<open>
  C10: \<open>handleUpscaleImage itemId newSrc\<close> leaves the queue, the staged images and the
  busy flag alone; the gallery keeps its length, and the id and prompt of every item; the
  item at each position is the old one, with \<open>src\<close> replaced by \<open>newSrc\<close> exactly when
  its id is \<open>itemId\<close>; and when no item has that id the gallery is unchanged.
\<close>

theorem upscale_frame:
  "queue (handleUpscaleImage itemId newSrc s) = queue s
   \<and> referenceImages_state (handleUpscaleImage itemId newSrc s) = referenceImages_state s
   \<and> isProcessingRef (handleUpscaleImage itemId newSrc s) = isProcessingRef s
   \<and> length (gallery (handleUpscaleImage itemId newSrc s)) = length (gallery s)
   \<and> map id_item (gallery (handleUpscaleImage itemId newSrc s)) = map id_item (gallery s)
   \<and> map prompt_item (gallery (handleUpscaleImage itemId newSrc s)) = map prompt_item (gallery s)
   \<and> (\<forall>k < length (gallery s).
        gallery (handleUpscaleImage itemId newSrc s) ! k =
          (if id_item (gallery s ! k) = itemId then (gallery s ! k)\<lparr>src := newSrc\<rparr>
           else gallery s ! k))
   \<and> (itemId \<notin> id_item ` set (gallery s) \<longrightarrow>
        gallery (handleUpscaleImage itemId newSrc s) = gallery s)"
proof -
  let ?f = "\<lambda>item. if id_item item = itemId then item\<lparr>src := newSrc\<rparr> else item"
  have g: "gallery (handleUpscaleImage itemId newSrc s) = map ?f (gallery s)"
    by (rule upscale_gallery)
  have ids: "map id_item (map ?f (gallery s)) = map id_item (gallery s)"
    by (simp add: comp_def if_distrib cong: if_cong)
  have prompts: "map prompt_item (map ?f (gallery s)) = map prompt_item (gallery s)"
    by (simp add: comp_def if_distrib cong: if_cong)
  have absent: "map ?f (gallery s) = gallery s" if "itemId \<notin> id_item ` set (gallery s)"
    using that by (intro map_idI) auto
  show ?thesis
    unfolding g using ids prompts absent
    by (simp add: handleUpscaleImage_def)
qed

theorem upscale_frame_witness:
  "gallery (handleUpscaleImage ''g2'' ''data:image/png;base64,BIG'' busy_app) ! 0 = cat
   \<and> gallery (handleUpscaleImage ''g2'' ''data:image/png;base64,BIG'' busy_app) ! 1
       = dog\<lparr>src := ''data:image/png;base64,BIG''\<rparr>
   \<and> queue (handleUpscaleImage ''g2'' ''data:image/png;base64,BIG'' busy_app)
       = [balloon\<lparr>status := Processing\<rparr>, kite]
   \<and> gallery (handleUpscaleImage ''g7'' ''data:image/png;base64,BIG'' busy_app) = [cat, dog]"
proof -
  note a = upscale_frame [of "''g2''" "''data:image/png;base64,BIG''" busy_app]
  note b = upscale_frame [of "''g7''" "''data:image/png;base64,BIG''" busy_app]
  have g: "gallery busy_app = [cat, dog]" and q: "queue busy_app = [balloon\<lparr>status := Processing\<rparr>, kite]"
    by (simp_all add: busy_app_def)
  have k0: "(0::nat) < length (gallery busy_app)" and k1: "(1::nat) < length (gallery busy_app)"
    by (simp_all add: g)
  have absent: "''g7'' \<notin> id_item ` set (gallery busy_app)"
    by (simp add: g cat_def dog_def)
  from a k0 have "gallery (handleUpscaleImage ''g2'' ''data:image/png;base64,BIG'' busy_app) ! 0
      = (if id_item (gallery busy_app ! 0) = ''g2''
         then (gallery busy_app ! 0)\<lparr>src := ''data:image/png;base64,BIG''\<rparr>
         else gallery busy_app ! 0)"
    by blast
  then have c0: "gallery (handleUpscaleImage ''g2'' ''data:image/png;base64,BIG'' busy_app) ! 0 = cat"
    by (simp add: g cat_def)
  from a k1 have "gallery (handleUpscaleImage ''g2'' ''data:image/png;base64,BIG'' busy_app) ! 1
      = (if id_item (gallery busy_app ! 1) = ''g2''
         then (gallery busy_app ! 1)\<lparr>src := ''data:image/png;base64,BIG''\<rparr>
         else gallery busy_app ! 1)"
    by blast
  then have c1: "gallery (handleUpscaleImage ''g2'' ''data:image/png;base64,BIG'' busy_app) ! 1
      = dog\<lparr>src := ''data:image/png;base64,BIG''\<rparr>"
    by (simp add: g dog_def)
  from a have c2: "queue (handleUpscaleImage ''g2'' ''data:image/png;base64,BIG'' busy_app)
      = [balloon\<lparr>status := Processing\<rparr>, kite]"
    by (simp add: q)
  from b absent have c3: "gallery (handleUpscaleImage ''g7'' ''data:image/png;base64,BIG'' busy_app)
      = [cat, dog]"
    by (simp add: g)
  from c0 c1 c2 c3 show ?thesis
    by blast
qed

section \<open>The busy flag\<close>

text \<open>
  C5: whatever the provider call produced (an image, an \<^verbatim>\<open>Error\<close>, or any other thrown
  value), the second phase of \<^verbatim>\<open>processQueue\<close> ends with the busy flag reset, and a
  later tick whose closure holds a pending job starts that job: it is not blocked.
\<close>

theorem busy_flag_released:
  "\<not> isProcessingRef (processQueue_resume job outcome uuid s)
   \<and> (find (\<lambda>j. status j = Pending) snapshot = Some nxt \<longrightarrow>
        fst (processQueue_begin snapshot (processQueue_resume job outcome uuid s)) = Some nxt)"
proof -
  have released: "\<not> isProcessingRef (processQueue_resume job outcome uuid s)"
    by (simp add: processQueue_resume_def processQueue_finally_def)
  have "fst (processQueue_begin snapshot (processQueue_resume job outcome uuid s)) = Some nxt"
    if f: "find (\<lambda>j. status j = Pending) snapshot = Some nxt"
  proof -
    from f have "snapshot \<noteq> []"
      by auto
    with released f show ?thesis
      by (simp add: processQueue_begin_def)
  qed
  with released show ?thesis
    by blast
qed

theorem busy_flag_released_witness:
  "find (\<lambda>j. status j = Pending) [balloon\<lparr>status := Processing\<rparr>, kite] = Some kite
   \<and> \<not> isProcessingRef (processQueue_resume balloon (Inl NonError) ''g3'' busy_app)
   \<and> fst (processQueue_begin [balloon\<lparr>status := Processing\<rparr>, kite]
            (processQueue_resume balloon (Inl NonError) ''g3'' busy_app)) = Some kite"
proof -
  have f: "find (\<lambda>j. status j = Pending) [balloon\<lparr>status := Processing\<rparr>, kite] = Some kite"
    by (simp add: balloon_def kite_def)
  from busy_flag_released [of balloon "Inl NonError" "''g3''" busy_app
      "[balloon\<lparr>status := Processing\<rparr>, kite]" kite] f
  show ?thesis
    by blast
qed

section \<open>Single flight\<close>

lemma ids_markProcessing: "map id_job (markProcessing i q) = map id_job q"
  by (induction q) (simp_all add: markProcessing_def)

lemma ids_markFailed: "map id_job (markFailed i m q) = map id_job q"
  by (induction q) (simp_all add: markFailed_def)

lemma distinct_markCompleted:
  "distinct (map id_job q) \<Longrightarrow> distinct (map id_job (markCompleted i q))"
  by (simp add: markCompleted_def distinct_map_filter)

lemma processing_markProcessing:
  "j \<in> set (markProcessing i q) \<Longrightarrow> status j = Processing \<Longrightarrow>
     id_job j = i \<or> (j \<in> set q \<and> status j = Processing)"
  by (auto simp: markProcessing_def split: if_splits)

lemma processing_markFailed:
  "j \<in> set (markFailed i m q) \<Longrightarrow> status j = Processing \<Longrightarrow>
     j \<in> set q \<and> id_job j \<noteq> i"
  by (auto simp: markFailed_def split: if_splits)

lemma processing_markCompleted:
  "j \<in> set (markCompleted i q) \<Longrightarrow> j \<in> set q \<and> id_job j \<noteq> i"
  by (simp add: markCompleted_def)

lemma single_flight_initial: "single_flight (initial g)"
  by (simp add: single_flight_def initial_def)

lemma single_flight_AddToQueue:
  assumes "single_flight c" and "enabled c (AddToQueue p ar uuid)"
  shows "single_flight (step (AddToQueue p ar uuid) c)"
  using assms
  by (cases "inflight c") (auto simp: single_flight_def handleAddToQueue_def Let_def)

lemma single_flight_Tick:
  assumes "single_flight c"
  shows "single_flight (step (Tick snapshot) c)"
proof (cases "processQueue_begin snapshot (app c)")
  case (Pair r s)
  show ?thesis
  proof (cases r)
    case None
    with Pair have "s = app c"
      by (auto simp: processQueue_begin_def split: if_splits option.splits)
    with Pair None assms show ?thesis
      by (simp add: single_flight_def)
  next
    case (Some job)
    with Pair have idle: "\<not> isProcessingRef (app c)"
      and s: "s = (app c)\<lparr>isProcessingRef := True, queue := markProcessing (id_job job) (queue (app c))\<rparr>"
      by (auto simp: processQueue_begin_def split: if_splits option.splits)
    from assms idle have empty: "inflight c = []"
      and none: "\<forall>j\<in>set (queue (app c)). status j \<noteq> Processing"
      and d: "distinct (map id_job (queue (app c)))"
      by (auto simp: single_flight_def split: list.splits)
    have "\<forall>j\<in>set (markProcessing (id_job job) (queue (app c))).
            status j = Processing \<longrightarrow> id_job j = id_job job"
      using none processing_markProcessing by blast
    with Pair Some s empty d show ?thesis
      by (simp add: single_flight_def ids_markProcessing)
  qed
qed

lemma single_flight_Settle:
  assumes "single_flight c"
  shows "single_flight (step (Settle k outcome uuid) c)"
proof (cases "k < length (inflight c)")
  case False
  with assms show ?thesis by simp
next
  case True
  with assms obtain J where J: "inflight c = [J]" and k: "k = 0"
    and d: "distinct (map id_job (queue (app c)))"
    and p: "\<forall>j\<in>set (queue (app c)). status j = Processing \<longrightarrow> id_job j = id_job J"
    by (cases "inflight c") (auto simp: single_flight_def)
  show ?thesis
  proof (cases outcome)
    case (Inl e)
    have "\<forall>j\<in>set (markFailed (id_job J) (errorMessage e) (queue (app c))). status j \<noteq> Processing"
      using p processing_markFailed by blast
    with J k d Inl show ?thesis
      by (simp add: single_flight_def processQueue_resume_def processQueue_finally_def
          processQueue_catch_def ids_markFailed)
  next
    case (Inr url)
    have "\<forall>j\<in>set (markCompleted (id_job J) (queue (app c))). status j \<noteq> Processing"
      using p processing_markCompleted by blast
    with J k d Inr show ?thesis
      by (simp add: single_flight_def processQueue_resume_def processQueue_finally_def
          processQueue_try_def distinct_markCompleted)
  qed
qed

lemma single_flight_frame:
  assumes "queue (app c') = queue (app c)" and "inflight c' = inflight c"
    and "isProcessingRef (app c') = isProcessingRef (app c)"
  shows "single_flight c' = single_flight c"
  using assms by (simp add: single_flight_def cong: list.case_cong)

lemma single_flight_step:
  assumes "single_flight c" and "enabled c e"
  shows "single_flight (step e c)"
proof (cases e)
  case (AddToQueue p ar uuid)
  with assms show ?thesis using single_flight_AddToQueue by blast
next
  case (Tick snapshot)
  with assms show ?thesis using single_flight_Tick by blast
next
  case (Settle k outcome uuid)
  with assms show ?thesis using single_flight_Settle by blast
next
  case (Upscale itemId newSrc)
  have "single_flight (step (Upscale itemId newSrc) c) = single_flight c"
    by (rule single_flight_frame) (simp_all add: handleUpscaleImage_def)
  with assms Upscale show ?thesis by simp
next
  case (ImageUpload fs)
  have "single_flight (step (ImageUpload fs) c) = single_flight c"
    by (rule single_flight_frame) (simp_all add: onImagesChange_def split: option.splits)
  with assms ImageUpload show ?thesis by simp
next
  case (RemoveImage index)
  have "single_flight (step (RemoveImage index) c) = single_flight c"
    by (rule single_flight_frame) simp_all
  with assms RemoveImage show ?thesis by simp
qed

lemma single_flight_run:
  "single_flight c \<Longrightarrow> admissible c es \<Longrightarrow> single_flight (run c es)"
  by (induction es arbitrary: c) (simp_all add: single_flight_step)

lemma distinct_constant_short:
  assumes "distinct xs" and "\<forall>x\<in>set xs. x = i"
  shows "length xs \<le> 1"
proof (cases xs)
  case Nil
  then show ?thesis by simp
next
  case (Cons x ys)
  with assms show ?thesis
    by (cases ys) auto
qed

lemma at_most_one_same_id:
  assumes "distinct (map id_job q)" and "\<forall>j\<in>set q. P j \<longrightarrow> id_job j = i"
  shows "length (filter P q) \<le> 1"
proof -
  have "distinct (map id_job (filter P q))"
    using assms(1) by (simp add: distinct_map_filter)
  moreover have "\<forall>x\<in>set (map id_job (filter P q)). x = i"
    using assms(2) by auto
  ultimately have "length (map id_job (filter P q)) \<le> 1"
    by (rule distinct_constant_short)
  then show ?thesis by simp
qed

text \<open>The scenario run ends in the busy configuration.\<close>

lemma run_two_jobs: "run (initial [cat, dog]) two_jobs = busy_config"
  by (simp add: two_jobs_def busy_config_def busy_app_def initial_def handleAddToQueue_def
      processQueue_begin_def markProcessing_def balloon_def kite_def)

lemma admissible_two_jobs: "admissible (initial [cat, dog]) two_jobs"
  by (simp add: two_jobs_def initial_def handleAddToQueue_def)

lemma rendered_two_jobs: "rendered (initial [cat, dog]) two_jobs"
  by (simp add: two_jobs_def initial_def handleAddToQueue_def balloon_def kite_def)

text \<open>
  C1: in every configuration reached from the mounted application by enqueueing, timer
  ticks (whatever queue their closure holds), settled provider calls, upscales and staging
  changes, at most one job of the queue has status \<open>Processing\<close> and at most one call of
  \<^verbatim>\<open>processQueue\<close> is suspended; and while some job is processing, every tick leaves
  the configuration as it is, so no further job is started before the suspended call
  settles.
\<close>

theorem single_processing_job:
  assumes "admissible (initial g) es"
  shows "length (filter (\<lambda>j. status j = Processing) (queue (app (run (initial g) es)))) \<le> 1
    \<and> length (inflight (run (initial g) es)) \<le> 1
    \<and> ((\<exists>j\<in>set (queue (app (run (initial g) es))). status j = Processing) \<longrightarrow>
          (\<forall>snapshot. step (Tick snapshot) (run (initial g) es) = run (initial g) es))"
proof -
  let ?c = "run (initial g) es"
  have sf: "single_flight ?c"
    using single_flight_initial assms by (rule single_flight_run)
  have one: "length (filter (\<lambda>j. status j = Processing) (queue (app ?c))) \<le> 1"
  proof (cases "inflight ?c")
    case Nil
    with sf have "filter (\<lambda>j. status j = Processing) (queue (app ?c)) = []"
      by (simp add: single_flight_def filter_empty_conv)
    then show ?thesis by simp
  next
    case (Cons J rest)
    with sf show ?thesis
      by (intro at_most_one_same_id [where i = "id_job J"]) (simp_all add: single_flight_def)
  qed
  have calls: "length (inflight ?c) \<le> 1"
    using sf by (cases "inflight ?c") (simp_all add: single_flight_def)
  have blocked: "step (Tick snapshot) ?c = ?c"
    if "\<exists>j\<in>set (queue (app ?c)). status j = Processing" for snapshot
  proof -
    from that sf have "isProcessingRef (app ?c)"
      by (cases "inflight ?c") (auto simp: single_flight_def)
    then show ?thesis
      by (simp add: processQueue_begin_def)
  qed
  from one calls blocked show ?thesis
    by blast
qed


theorem single_processing_job_witness:
  "admissible (initial [cat, dog]) two_jobs
   \<and> length (filter (\<lambda>j. status j = Processing) (queue (app (run (initial [cat, dog]) two_jobs)))) \<le> 1
   \<and> length (inflight (run (initial [cat, dog]) two_jobs)) \<le> 1
   \<and> status (hd (queue (app (run (initial [cat, dog]) two_jobs)))) = Processing
   \<and> step (Tick (queue (app (run (initial [cat, dog]) two_jobs)))) (run (initial [cat, dog]) two_jobs)
       = run (initial [cat, dog]) two_jobs"
proof -
  note t = single_processing_job [OF admissible_two_jobs]
  have q: "queue (app (run (initial [cat, dog]) two_jobs)) = [balloon\<lparr>status := Processing\<rparr>, kite]"
    by (simp add: run_two_jobs busy_config_def busy_app_def)
  have h: "status (hd (queue (app (run (initial [cat, dog]) two_jobs)))) = Processing"
    by (simp add: q)
  have "hd (queue (app (run (initial [cat, dog]) two_jobs)))
          \<in> set (queue (app (run (initial [cat, dog]) two_jobs)))"
    by (simp add: q)
  with h have "\<exists>j\<in>set (queue (app (run (initial [cat, dog]) two_jobs))). status j = Processing"
    by blast
  with t have "step (Tick (queue (app (run (initial [cat, dog]) two_jobs))))
                 (run (initial [cat, dog]) two_jobs) = run (initial [cat, dog]) two_jobs"
    by blast
  with t h admissible_two_jobs show ?thesis
    by blast
qed

section \<open>Submission order\<close>

lemma tracked_initial: "tracked (initial g)"
  by (simp add: tracked_def single_flight_initial) (simp add: initial_def)

lemma begin_None:
  "fst (processQueue_begin snapshot s) = None \<Longrightarrow> processQueue_begin snapshot s = (None, s)"
  by (auto simp: processQueue_begin_def split: if_splits option.splits)

lemma begin_Some:
  assumes "fst (processQueue_begin snapshot s) = Some job"
  shows "\<not> isProcessingRef s \<and> find (\<lambda>j. status j = Pending) snapshot = Some job
    \<and> processQueue_begin snapshot s =
        (Some job, s\<lparr>isProcessingRef := True, queue := markProcessing (id_job job) (queue s)\<rparr>)"
  using assms by (auto simp: processQueue_begin_def split: if_splits option.splits)

lemma find_first:
  "find P xs = Some x \<Longrightarrow>
     P x \<and> xs = takeWhile (\<lambda>y. \<not> P y) xs @ x # tl (dropWhile (\<lambda>y. \<not> P y) xs)"
  by (induction xs) (auto split: if_splits)

lemma markProcessing_absent: "i \<notin> id_job ` set q \<Longrightarrow> markProcessing i q = q"
  unfolding markProcessing_def by (rule map_idI) auto

lemma markProcessing_split:
  assumes "distinct (map id_job (pre @ j # post))"
  shows "markProcessing (id_job j) (pre @ j # post) = pre @ j\<lparr>status := Processing\<rparr> # post"
proof -
  from assms have "id_job j \<notin> id_job ` set pre" and "id_job j \<notin> id_job ` set post"
    by auto
  then have "markProcessing (id_job j) pre = pre" and "markProcessing (id_job j) post = post"
    by (simp_all add: markProcessing_absent)
  then show ?thesis
    by (simp add: markProcessing_def)
qed

lemma same_id_same_job:
  assumes "distinct (map id_job q)" and "a \<in> set q" and "b \<in> set q" and "id_job a = id_job b"
  shows "a = b"
  using assms by (meson distinct_map inj_onD)

lemma single_flight_suspended:
  assumes "single_flight c" and "k < length (inflight c)"
  obtains J where "inflight c = [J]" and "k = 0"
  using assms by (cases "inflight c") (auto simp: single_flight_def)

lemma tracked_step:
  assumes t: "tracked c" and en: "enabled c e"
    and r: "case e of Tick snapshot \<Rightarrow> snapshot = queue (app c) | _ \<Rightarrow> True"
  shows "tracked (step e c)"
proof -
  from t have sf: "single_flight c"
    and mem: "\<forall>J\<in>set (inflight c). J\<lparr>status := Processing\<rparr> \<in> set (queue (app c))"
    by (simp_all add: tracked_def)
  from sf en have sf': "single_flight (step e c)"
    by (rule single_flight_step)
  have "\<forall>J\<in>set (inflight (step e c)). J\<lparr>status := Processing\<rparr> \<in> set (queue (app (step e c)))"
  proof (cases e)
    case (AddToQueue p ar uuid)
    with mem show ?thesis
      by (simp add: handleAddToQueue_def Let_def)
  next
    case (Tick snapshot)
    with r have snap: "snapshot = queue (app c)" by simp
    show ?thesis
    proof (cases "fst (processQueue_begin snapshot (app c))")
      case None
      then have "processQueue_begin snapshot (app c) = (None, app c)"
        by (rule begin_None)
      with Tick mem show ?thesis by simp
    next
      case (Some job)
      note b = begin_Some [OF Some]
      from b sf have empty: "inflight c = []"
        by (cases "inflight c") (simp_all add: single_flight_def)
      from b snap have "job \<in> set (queue (app c))"
        by (auto simp: find_Some_iff)
      then have "job\<lparr>status := Processing\<rparr> \<in> set (markProcessing (id_job job) (queue (app c)))"
        by (force simp: markProcessing_def)
      with Tick b empty show ?thesis by simp
    qed
  next
    case (Settle k outcome uuid)
    show ?thesis
    proof (cases "k < length (inflight c)")
      case True
      with sf obtain J where "inflight c = [J]" and "k = 0"
        by (rule single_flight_suspended)
      with Settle show ?thesis by simp
    next
      case False
      with Settle mem show ?thesis by simp
    qed
  next
    case (Upscale itemId newSrc)
    with mem show ?thesis by (simp add: handleUpscaleImage_def)
  next
    case (ImageUpload fs)
    with mem show ?thesis by (simp add: onImagesChange_def split: option.splits)
  next
    case (RemoveImage index)
    with mem show ?thesis by simp
  qed
  with sf' show ?thesis
    by (simp add: tracked_def)
qed

lemma tracked_run:
  "tracked c \<Longrightarrow> admissible c es \<Longrightarrow> rendered c es \<Longrightarrow> tracked (run c es)"
  by (induction es arbitrary: c) (simp_all add: tracked_step)


lemma pendingIds_markProcessing:
  assumes "distinct (map id_job q)" and "find (\<lambda>j. status j = Pending) q = Some J"
  shows "pendingIds q = id_job J # pendingIds (markProcessing (id_job J) q)"
proof -
  let ?pre = "takeWhile (\<lambda>y. \<not> status y = Pending) q"
  let ?post = "tl (dropWhile (\<lambda>y. \<not> status y = Pending) q)"
  from find_first [OF assms(2)] have J: "status J = Pending" and q: "q = ?pre @ J # ?post"
    by simp_all
  have pre: "filter (\<lambda>j. status j = Pending) ?pre = []"
    by (auto simp: filter_empty_conv dest: set_takeWhileD)
  from assms(1) q have "distinct (map id_job (?pre @ J # ?post))"
    by simp
  then have "markProcessing (id_job J) (?pre @ J # ?post) = ?pre @ J\<lparr>status := Processing\<rparr> # ?post"
    by (rule markProcessing_split)
  then have "pendingIds (markProcessing (id_job J) (?pre @ J # ?post)) = pendingIds ?post"
    by (simp add: pendingIds_def pre)
  moreover have "pendingIds (?pre @ J # ?post) = id_job J # pendingIds ?post"
    by (simp add: pendingIds_def pre J)
  ultimately show ?thesis
    using q by simp
qed

lemma pendingIds_settled:
  assumes "\<forall>j\<in>set q. id_job j = i \<longrightarrow> status j \<noteq> Pending"
  shows "pendingIds (markCompleted i q) = pendingIds q"
    and "pendingIds (markFailed i m q) = pendingIds q"
proof -
  have "filter (\<lambda>j. status j = Pending) (markCompleted i q) = filter (\<lambda>j. status j = Pending) q"
    using assms unfolding markCompleted_def by (induction q) auto
  then show "pendingIds (markCompleted i q) = pendingIds q"
    by (simp add: pendingIds_def)
  show "pendingIds (markFailed i m q) = pendingIds q"
    using assms unfolding markFailed_def pendingIds_def by (induction q) auto
qed

lemma tracked_entry:
  assumes "tracked c" and "inflight c = [J]" and "j \<in> set (queue (app c))"
    and "id_job j = id_job J"
  shows "j = J\<lparr>status := Processing\<rparr>"
proof -
  from assms(1,2) have d: "distinct (map id_job (queue (app c)))"
    and m: "J\<lparr>status := Processing\<rparr> \<in> set (queue (app c))"
    by (simp_all add: tracked_def single_flight_def)
  from d assms(3) m show ?thesis
    by (rule same_id_same_job) (simp add: assms(4))
qed

lemma pendingIds_resume:
  assumes "tracked c" and "inflight c = [J]"
  shows "pendingIds (queue (processQueue_resume J outcome uuid (app c))) = pendingIds (queue (app c))"
proof -
  have "\<forall>j\<in>set (queue (app c)). id_job j = id_job J \<longrightarrow> status j \<noteq> Pending"
    using tracked_entry [OF assms] by fastforce
  then show ?thesis
    by (cases outcome)
      (simp_all add: processQueue_resume_def processQueue_finally_def processQueue_try_def
        processQueue_catch_def pendingIds_settled)
qed

lemma fifo_step:
  assumes t: "tracked c" and en: "enabled c e"
    and r: "case e of Tick snapshot \<Rightarrow> snapshot = queue (app c) | _ \<Rightarrow> True"
  shows "started c [e] @ pendingIds (queue (app (step e c))) = pendingIds (queue (app c)) @ submitted [e]"
proof (cases e)
  case (AddToQueue p ar uuid)
  then show ?thesis
    by (simp add: handleAddToQueue_def Let_def pendingIds_def)
next
  case (Tick snapshot)
  with r have snap: "snapshot = queue (app c)" by simp
  show ?thesis
  proof (cases "fst (processQueue_begin snapshot (app c))")
    case None
    with begin_None [OF None] Tick show ?thesis by simp
  next
    case (Some job)
    note b = begin_Some [OF Some]
    from t have "distinct (map id_job (queue (app c)))"
      by (simp add: tracked_def single_flight_def)
    moreover from b snap have "find (\<lambda>j. status j = Pending) (queue (app c)) = Some job"
      by simp
    ultimately have "pendingIds (queue (app c))
        = id_job job # pendingIds (markProcessing (id_job job) (queue (app c)))"
      by (rule pendingIds_markProcessing)
    with Tick Some b show ?thesis by simp
  qed
next
  case (Settle k outcome uuid)
  from en Settle have "k < length (inflight c)" by simp
  with t obtain J where J: "inflight c = [J]" and k: "k = 0"
    unfolding tracked_def by (blast elim: single_flight_suspended)
  from pendingIds_resume [OF t J] Settle J k show ?thesis
    by simp
next
  case (Upscale itemId newSrc)
  then show ?thesis by (simp add: handleUpscaleImage_def)
next
  case (ImageUpload fs)
  then show ?thesis by (simp add: onImagesChange_def split: option.splits)
next
  case (RemoveImage index)
  then show ?thesis by simp
qed

lemma fifo_run:
  assumes "tracked c" and "admissible c es" and "rendered c es"
  shows "started c es @ pendingIds (queue (app (run c es))) = pendingIds (queue (app c)) @ submitted es"
  using assms
proof (induction es arbitrary: c)
  case Nil
  then show ?case by simp
next
  case (Cons e es)
  from Cons.prems have en: "enabled c e" and ad: "admissible (step e c) es"
    and r: "case e of Tick snapshot \<Rightarrow> snapshot = queue (app c) | _ \<Rightarrow> True"
    and rs: "rendered (step e c) es"
    by simp_all
  from Cons.prems(1) en r have t': "tracked (step e c)"
    by (rule tracked_step)
  have split_started: "started c (e # es) = started c [e] @ started (step e c) es"
    by simp
  have split_submitted: "submitted (e # es) = submitted [e] @ submitted es"
    by (cases e) simp_all
  have "started c (e # es) @ pendingIds (queue (app (run c (e # es))))
      = started c [e] @ (started (step e c) es @ pendingIds (queue (app (run (step e c) es))))"
    by simp
  also have "\<dots> = started c [e] @ (pendingIds (queue (app (step e c))) @ submitted es)"
    using Cons.IH [OF t' ad rs] by simp
  also have "\<dots> = (pendingIds (queue (app c)) @ submitted [e]) @ submitted es"
    using fifo_step [OF Cons.prems(1) en r] by simp
  finally show ?case
    using split_submitted by simp
qed


lemma run_enqueue_two: "run (initial [cat, dog]) enqueue_two = idle_config"
  by (simp add: scenario_defs operation_defs)

lemma admissible_enqueue_two: "admissible (initial [cat, dog]) enqueue_two"
  by (simp add: scenario_defs operation_defs)

lemma rendered_enqueue_two: "rendered (initial [cat, dog]) enqueue_two"
  by (simp add: scenario_defs operation_defs)

lemma admissible_fail_then_next: "admissible (initial [cat, dog]) fail_then_next"
  by (simp add: scenario_defs operation_defs)

lemma rendered_fail_then_next: "rendered (initial [cat, dog]) fail_then_next"
  by (simp add: scenario_defs operation_defs)

lemma started_fail_then_next: "started (initial [cat, dog]) fail_then_next = [''j1'', ''j2'']"
  by (simp add: scenario_defs operation_defs)

lemma submitted_fail_then_next: "submitted fail_then_next = [''j1'', ''j2'']"
  by (simp add: scenario_defs)

text \<open>
  What holds of rendered runs: enqueueing appends the new pending job, with the id it was
  given, at the tail of the queue, and ids stay distinct when that id is carried by no
  current job; a tick that starts a job starts the first job of the queue whose status is
  \<open>Pending\<close>, every job before it being skipped, and marks exactly that entry as
  processing; the submitted ids are the started ids followed by the ids of the jobs still
  pending, so that jobs are started in the order of their submission.
\<close>

lemma rendered_fifo_order:
  assumes "admissible (initial g) es" and "rendered (initial g) es"
  shows "queue (app (step (AddToQueue p ar uuid) (run (initial g) es)))
           = queue (app (run (initial g) es))
             @ [\<lparr>id_job = uuid, prompt = p,
                 referenceImages = referenceImages_state (app (run (initial g) es)),
                 aspectRatio = ar, status = Pending, error = None\<rparr>]
    \<and> distinct (map id_job (queue (app (run (initial g) es))))
    \<and> (enabled (run (initial g) es) (AddToQueue p ar uuid) \<longrightarrow>
         distinct (map id_job (queue (app (step (AddToQueue p ar uuid) (run (initial g) es))))))
    \<and> (fst (processQueue_begin (queue (app (run (initial g) es))) (app (run (initial g) es)))
          = Some job \<longrightarrow>
         status job = Pending
         \<and> queue (app (run (initial g) es))
             = takeWhile (\<lambda>j. status j \<noteq> Pending) (queue (app (run (initial g) es)))
               @ job # tl (dropWhile (\<lambda>j. status j \<noteq> Pending) (queue (app (run (initial g) es))))
         \<and> queue (app (step (Tick (queue (app (run (initial g) es)))) (run (initial g) es)))
             = takeWhile (\<lambda>j. status j \<noteq> Pending) (queue (app (run (initial g) es)))
               @ job\<lparr>status := Processing\<rparr>
               # tl (dropWhile (\<lambda>j. status j \<noteq> Pending) (queue (app (run (initial g) es)))))
    \<and> submitted es = started (initial g) es @ pendingIds (queue (app (run (initial g) es)))
    \<and> started (initial g) es = take (length (started (initial g) es)) (submitted es)"
proof -
  let ?c = "run (initial g) es"
  let ?q = "queue (app ?c)"
  let ?pre = "takeWhile (\<lambda>j. status j \<noteq> Pending) ?q"
  let ?post = "tl (dropWhile (\<lambda>j. status j \<noteq> Pending) ?q)"
  have t: "tracked ?c"
    using tracked_initial assms by (rule tracked_run)
  then have sf: "single_flight ?c"
    by (simp add: tracked_def)
  then have d: "distinct (map id_job ?q)"
    by (simp add: single_flight_def)
  have tail: "queue (app (step (AddToQueue p ar uuid) ?c))
      = ?q @ [\<lparr>id_job = uuid, prompt = p, referenceImages = referenceImages_state (app ?c),
               aspectRatio = ar, status = Pending, error = None\<rparr>]"
    by (simp add: handleAddToQueue_def Let_def)
  have fresh: "distinct (map id_job (queue (app (step (AddToQueue p ar uuid) ?c))))"
    if "enabled ?c (AddToQueue p ar uuid)"
    using single_flight_step [OF sf that] by (simp add: single_flight_def)
  have first: "status job = Pending \<and> ?q = ?pre @ job # ?post
      \<and> queue (app (step (Tick ?q) ?c)) = ?pre @ job\<lparr>status := Processing\<rparr> # ?post"
    if b: "fst (processQueue_begin ?q (app ?c)) = Some job"
  proof -
    note bs = begin_Some [OF b]
    from bs have f: "find (\<lambda>j. status j = Pending) ?q = Some job"
      by simp
    from find_first [OF f] have p: "status job = Pending" and q: "?q = ?pre @ job # ?post"
      by simp_all
    from d q have "distinct (map id_job (?pre @ job # ?post))"
      by simp
    then have "markProcessing (id_job job) (?pre @ job # ?post)
        = ?pre @ job\<lparr>status := Processing\<rparr> # ?post"
      by (rule markProcessing_split)
    with q have "markProcessing (id_job job) ?q = ?pre @ job\<lparr>status := Processing\<rparr> # ?post"
      by simp
    with bs have "queue (app (step (Tick ?q) ?c)) = ?pre @ job\<lparr>status := Processing\<rparr> # ?post"
      by simp
    with p q show ?thesis
      by blast
  qed
  from fifo_run [OF tracked_initial assms]
  have sub: "submitted es = started (initial g) es @ pendingIds ?q"
    by (simp add: initial_def pendingIds_def)
  then have pre: "started (initial g) es = take (length (started (initial g) es)) (submitted es)"
    by simp
  from tail d fresh first sub pre show ?thesis
    by blast
qed


lemma rendered_fifo_order_example:
  "admissible (initial [cat, dog]) enqueue_two \<and> rendered (initial [cat, dog]) enqueue_two
   \<and> enabled (run (initial [cat, dog]) enqueue_two) (AddToQueue ''A green tree'' AR_4_3 ''j3'')
   \<and> queue (app (step (AddToQueue ''A green tree'' AR_4_3 ''j3'') (run (initial [cat, dog]) enqueue_two)))
       = [balloon, kite,
          \<lparr>id_job = ''j3'', prompt = ''A green tree'', referenceImages = [],
           aspectRatio = AR_4_3, status = Pending, error = None\<rparr>]
   \<and> distinct (map id_job (queue (app (step (AddToQueue ''A green tree'' AR_4_3 ''j3'')
        (run (initial [cat, dog]) enqueue_two)))))
   \<and> fst (processQueue_begin (queue (app (run (initial [cat, dog]) enqueue_two)))
        (app (run (initial [cat, dog]) enqueue_two))) = Some balloon
   \<and> queue (app (step (Tick (queue (app (run (initial [cat, dog]) enqueue_two))))
        (run (initial [cat, dog]) enqueue_two)))
       = [balloon\<lparr>status := Processing\<rparr>, kite]
   \<and> admissible (initial [cat, dog]) fail_then_next \<and> rendered (initial [cat, dog]) fail_then_next
   \<and> started (initial [cat, dog]) fail_then_next = take 2 (submitted fail_then_next)"
proof -
  note a = rendered_fifo_order [OF admissible_enqueue_two rendered_enqueue_two,
      of "''A green tree''" AR_4_3 "''j3''" balloon]
  note b = rendered_fifo_order [OF admissible_fail_then_next rendered_fail_then_next]
  have en: "enabled (run (initial [cat, dog]) enqueue_two) (AddToQueue ''A green tree'' AR_4_3 ''j3'')"
    by (simp add: run_enqueue_two idle_config_def balloon_def kite_def)
  have sel: "fst (processQueue_begin (queue (app (run (initial [cat, dog]) enqueue_two)))
        (app (run (initial [cat, dog]) enqueue_two))) = Some balloon"
    by (simp add: run_enqueue_two idle_config_def processQueue_begin_def balloon_def kite_def)
  have q: "queue (app (run (initial [cat, dog]) enqueue_two)) = [balloon, kite]"
    and refs: "referenceImages_state (app (run (initial [cat, dog]) enqueue_two)) = []"
    by (simp_all add: run_enqueue_two idle_config_def)
  have pre: "takeWhile (\<lambda>j. status j \<noteq> Pending) [balloon, kite] = []"
    and post: "tl (dropWhile (\<lambda>j. status j \<noteq> Pending) [balloon, kite]) = [kite]"
    by (simp_all add: balloon_def)
  from a have "queue (app (step (AddToQueue ''A green tree'' AR_4_3 ''j3'') (run (initial [cat, dog]) enqueue_two)))
       = queue (app (run (initial [cat, dog]) enqueue_two))
         @ [\<lparr>id_job = ''j3'', prompt = ''A green tree'',
             referenceImages = referenceImages_state (app (run (initial [cat, dog]) enqueue_two)),
             aspectRatio = AR_4_3, status = Pending, error = None\<rparr>]"
    by blast
  then have c1: "queue (app (step (AddToQueue ''A green tree'' AR_4_3 ''j3'') (run (initial [cat, dog]) enqueue_two)))
       = [balloon, kite,
          \<lparr>id_job = ''j3'', prompt = ''A green tree'', referenceImages = [],
           aspectRatio = AR_4_3, status = Pending, error = None\<rparr>]"
    by (simp add: q refs)
  from a en have c2: "distinct (map id_job (queue (app (step (AddToQueue ''A green tree'' AR_4_3 ''j3'')
        (run (initial [cat, dog]) enqueue_two)))))"
    by blast
  from a sel have "queue (app (step (Tick (queue (app (run (initial [cat, dog]) enqueue_two))))
        (run (initial [cat, dog]) enqueue_two)))
      = takeWhile (\<lambda>j. status j \<noteq> Pending) (queue (app (run (initial [cat, dog]) enqueue_two)))
        @ balloon\<lparr>status := Processing\<rparr>
        # tl (dropWhile (\<lambda>j. status j \<noteq> Pending) (queue (app (run (initial [cat, dog]) enqueue_two))))"
    by blast
  then have c3: "queue (app (step (Tick (queue (app (run (initial [cat, dog]) enqueue_two))))
        (run (initial [cat, dog]) enqueue_two))) = [balloon\<lparr>status := Processing\<rparr>, kite]"
    by (simp only: q pre post append_Nil)
  from b have "started (initial [cat, dog]) fail_then_next
      = take (length (started (initial [cat, dog]) fail_then_next)) (submitted fail_then_next)"
    by blast
  then have c4: "started (initial [cat, dog]) fail_then_next = take 2 (submitted fail_then_next)"
    by (simp add: started_fail_then_next numeral_2_eq_2)
  from admissible_enqueue_two rendered_enqueue_two en c1 c2 sel c3
    admissible_fail_then_next rendered_fail_then_next c4
  show ?thesis
    by blast
qed

text \<open>
  C2 at a stale tick. Two jobs are enqueued and the first is started; the provider rejects
  it, so that the \<^verbatim>\<open>catch\<close> clause marks it as failed and the \<^verbatim>\<open>finally\<close> clause clears
  the busy flag; the timer then fires once more with the callback of the render in which
  both jobs were pending. The queue holds the failed first job and the pending second one,
  so the earliest pending job is the second; but \<^verbatim>\<open>queue.find\<close> reads the closure and
  the tick starts the first job again. The started ids are \<open>j1, j1\<close>, the submitted ids
  \<open>j1, j2\<close>: the failed job is not skipped and the order of submission is not kept.
\<close>

theorem stale_tick_restarts_failed_job:
  "admissible (initial [cat, dog]) stale_retry
   \<and> submitted stale_retry = [''j1'', ''j2'']
   \<and> started (initial [cat, dog]) stale_retry = [''j1'', ''j1'']
   \<and> queue (app (run (initial [cat, dog]) (butlast stale_retry))) = [failed_balloon, kite]
   \<and> find (\<lambda>j. status j = Pending) (queue (app (run (initial [cat, dog]) (butlast stale_retry))))
       = Some kite
   \<and> fst (processQueue_begin [balloon, kite] (app (run (initial [cat, dog]) (butlast stale_retry))))
       = Some balloon"
  by (simp add: stale_defs scenario_defs operation_defs)

section \<open>A successful provider call\<close>

lemma markCompleted_absent: "i \<notin> id_job ` set q \<Longrightarrow> markCompleted i q = q"
  unfolding markCompleted_def by (rule filter_True) auto

lemma markCompleted_remove1:
  assumes "distinct (map id_job q)" and "x \<in> set q"
  shows "markCompleted (id_job x) q = remove1 x q"
  using assms
proof (induction q)
  case Nil
  then show ?case by simp
next
  case (Cons a q)
  show ?case
  proof (cases "a = x")
    case True
    with Cons.prems have "id_job x \<notin> id_job ` set q"
      by simp
    then have "markCompleted (id_job x) q = q"
      by (rule markCompleted_absent)
    with True show ?thesis
      by (simp add: markCompleted_def)
  next
    case False
    with Cons.prems have x: "x \<in> set q" and d: "distinct (map id_job q)"
      by simp_all
    from Cons.prems x False have "id_job a \<noteq> id_job x"
      by force
    with Cons.IH [OF d x] False show ?thesis
      by (simp add: markCompleted_def)
  qed
qed

lemma tracked_reached:
  assumes "admissible (initial g) es" and "rendered (initial g) es"
  shows "tracked (run (initial g) es)"
  using tracked_initial assms by (rule tracked_run)

lemma tracked_suspended:
  assumes "tracked c" and "inflight c = [job]"
  shows "distinct (map id_job (queue (app c)))"
    and "job\<lparr>status := Processing\<rparr> \<in> set (queue (app c))"
  using assms by (simp_all add: tracked_def single_flight_def)

lemma inflight_two_jobs: "inflight (run (initial [cat, dog]) two_jobs) = [balloon]"
  by (simp add: run_two_jobs busy_config_def)

lemma single_flight_reached:
  "admissible (initial g) es \<Longrightarrow> single_flight (run (initial g) es)"
  using single_flight_initial by (rule single_flight_run)

lemma markCompleted_short:
  assumes "distinct (map id_job q)"
  shows "length q \<le> length (markCompleted i q) + 1"
proof (cases "i \<in> id_job ` set q")
  case False
  then show ?thesis by (simp add: markCompleted_absent)
next
  case True
  then obtain x where x: "x \<in> set q" and i: "i = id_job x"
    by blast
  from assms x have "markCompleted (id_job x) q = remove1 x q"
    by (rule markCompleted_remove1)
  with x i show ?thesis
    by (simp add: length_remove1)
qed

lemma run_stale_completed:
  "run (initial []) stale_completed
   = \<lparr>app = \<lparr>referenceImages_state = [], queue = [],
             gallery = [\<lparr>id_item = ''g3'', src = ''data:image/png;base64,BALLOON'',
                         prompt_item = ''A red balloon''\<rparr>],
             selectedImage = None, isProcessingRef = True\<rparr>,
      inflight = [balloon]\<rparr>"
  by (simp add: stale_defs scenario_defs operation_defs)

lemma admissible_stale_completed: "admissible (initial []) stale_completed"
  by (simp add: stale_defs scenario_defs operation_defs)

text \<open>
  C3: in a configuration reached by a run (its ticks may be stale) in which the call for
  \<open>job\<close> is suspended, settling that call with the image \<open>imageUrl\<close> puts a new gallery
  item with that image and the job's prompt at index 0 of the gallery, in front of the
  unchanged earlier items, and leaves of the queue the entries whose id is not the job's,
  in order: no entry with the job's id is left, the entry with the job's id is the only one
  removed (ids are distinct, so the queue gets shorter by at most one), and a queue without
  such an entry is unchanged. The staged images are untouched and the busy flag is clear.
\<close>

theorem success_moves_job_to_gallery:
  assumes "admissible (initial g) es"
    and "k < length (inflight (run (initial g) es))"
    and "inflight (run (initial g) es) ! k = job"
  shows "gallery (app (step (Settle k (Inr imageUrl) uuid) (run (initial g) es)))
           = \<lparr>id_item = uuid, src = imageUrl, prompt_item = prompt job\<rparr>
             # gallery (app (run (initial g) es))
    \<and> gallery (app (step (Settle k (Inr imageUrl) uuid) (run (initial g) es))) ! 0
           = \<lparr>id_item = uuid, src = imageUrl, prompt_item = prompt job\<rparr>
    \<and> queue (app (step (Settle k (Inr imageUrl) uuid) (run (initial g) es)))
           = filter (\<lambda>j. id_job j \<noteq> id_job job) (queue (app (run (initial g) es)))
    \<and> id_job job \<notin> id_job ` set (queue (app (step (Settle k (Inr imageUrl) uuid) (run (initial g) es))))
    \<and> (\<forall>entry\<in>set (queue (app (run (initial g) es))).
          id_job entry = id_job job \<longrightarrow>
          queue (app (step (Settle k (Inr imageUrl) uuid) (run (initial g) es)))
            = remove1 entry (queue (app (run (initial g) es))))
    \<and> (id_job job \<notin> id_job ` set (queue (app (run (initial g) es))) \<longrightarrow>
          queue (app (step (Settle k (Inr imageUrl) uuid) (run (initial g) es)))
            = queue (app (run (initial g) es)))
    \<and> length (queue (app (run (initial g) es)))
         \<le> length (queue (app (step (Settle k (Inr imageUrl) uuid) (run (initial g) es)))) + 1
    \<and> referenceImages_state (app (step (Settle k (Inr imageUrl) uuid) (run (initial g) es)))
           = referenceImages_state (app (run (initial g) es))
    \<and> \<not> isProcessingRef (app (step (Settle k (Inr imageUrl) uuid) (run (initial g) es)))"
proof -
  let ?c = "run (initial g) es"
  let ?c' = "step (Settle k (Inr imageUrl) uuid) ?c"
  let ?item = "\<lparr>id_item = uuid, src = imageUrl, prompt_item = prompt job\<rparr>"
  have "single_flight ?c"
    using assms(1) by (rule single_flight_reached)
  then have d: "distinct (map id_job (queue (app ?c)))"
    by (simp add: single_flight_def)
  have app': "app ?c' = processQueue_resume job (Inr imageUrl) uuid (app ?c)"
    using assms(2,3) by simp
  have g: "gallery (app ?c') = ?item # gallery (app ?c)"
    unfolding app' by (simp add: processQueue_resume_def processQueue_finally_def processQueue_try_def)
  then have g0: "gallery (app ?c') ! 0 = ?item"
    by simp
  have q: "queue (app ?c') = markCompleted (id_job job) (queue (app ?c))"
    unfolding app' by (simp add: processQueue_resume_def processQueue_finally_def processQueue_try_def)
  then have f: "queue (app ?c') = filter (\<lambda>j. id_job j \<noteq> id_job job) (queue (app ?c))"
    by (simp add: markCompleted_def)
  then have gone: "id_job job \<notin> id_job ` set (queue (app ?c'))"
    by auto
  have one: "\<forall>entry\<in>set (queue (app ?c)). id_job entry = id_job job \<longrightarrow>
      queue (app ?c') = remove1 entry (queue (app ?c))"
  proof (intro ballI impI)
    fix entry assume e: "entry \<in> set (queue (app ?c))" and i: "id_job entry = id_job job"
    from d e have "markCompleted (id_job entry) (queue (app ?c)) = remove1 entry (queue (app ?c))"
      by (rule markCompleted_remove1)
    with q i show "queue (app ?c') = remove1 entry (queue (app ?c))"
      by simp
  qed
  have none: "queue (app ?c') = queue (app ?c)" if "id_job job \<notin> id_job ` set (queue (app ?c))"
    unfolding q using that by (rule markCompleted_absent)
  have len: "length (queue (app ?c)) \<le> length (queue (app ?c')) + 1"
    unfolding q using d by (rule markCompleted_short)
  have refs: "referenceImages_state (app ?c') = referenceImages_state (app ?c)"
    unfolding app' by (simp add: processQueue_resume_def processQueue_finally_def processQueue_try_def)
  have idle: "\<not> isProcessingRef (app ?c')"
    unfolding app' by (simp add: processQueue_resume_def processQueue_finally_def)
  from g g0 f gone one none len refs idle show ?thesis
    by blast
qed


theorem success_moves_job_to_gallery_witness:
  "admissible (initial [cat, dog]) two_jobs
   \<and> inflight (run (initial [cat, dog]) two_jobs) ! 0 = balloon
   \<and> queue (app (run (initial [cat, dog]) two_jobs)) = [balloon\<lparr>status := Processing\<rparr>, kite]
   \<and> gallery (app (step (Settle 0 (Inr ''data:image/png;base64,BALLOON'') ''g3'')
        (run (initial [cat, dog]) two_jobs)))
       = [\<lparr>id_item = ''g3'', src = ''data:image/png;base64,BALLOON'', prompt_item = ''A red balloon''\<rparr>,
          cat, dog]
   \<and> queue (app (step (Settle 0 (Inr ''data:image/png;base64,BALLOON'') ''g3'')
        (run (initial [cat, dog]) two_jobs))) = [kite]
   \<and> admissible (initial []) stale_completed
   \<and> inflight (run (initial []) stale_completed) ! 0 = balloon
   \<and> queue (app (run (initial []) stale_completed)) = []
   \<and> queue (app (step (Settle 0 (Inr ''data:image/png;base64,AGAIN'') ''g4'')
        (run (initial []) stale_completed))) = []
   \<and> gallery (app (step (Settle 0 (Inr ''data:image/png;base64,AGAIN'') ''g4'')
        (run (initial []) stale_completed)))
       = [\<lparr>id_item = ''g4'', src = ''data:image/png;base64,AGAIN'', prompt_item = ''A red balloon''\<rparr>,
          \<lparr>id_item = ''g3'', src = ''data:image/png;base64,BALLOON'', prompt_item = ''A red balloon''\<rparr>]"
proof -
  have k1: "0 < length (inflight (run (initial [cat, dog]) two_jobs))"
    and j1: "inflight (run (initial [cat, dog]) two_jobs) ! 0 = balloon"
    by (simp_all add: run_two_jobs busy_config_def)
  have k2: "0 < length (inflight (run (initial []) stale_completed))"
    and j2: "inflight (run (initial []) stale_completed) ! 0 = balloon"
    by (simp_all add: run_stale_completed)
  note a = success_moves_job_to_gallery [OF admissible_two_jobs k1 j1,
      of "''data:image/png;base64,BALLOON''" "''g3''"]
  note b = success_moves_job_to_gallery [OF admissible_stale_completed k2 j2,
      of "''data:image/png;base64,AGAIN''" "''g4''"]
  have q1: "queue (app (run (initial [cat, dog]) two_jobs)) = [balloon\<lparr>status := Processing\<rparr>, kite]"
    and g1: "gallery (app (run (initial [cat, dog]) two_jobs)) = [cat, dog]"
    by (simp_all add: run_two_jobs busy_config_def busy_app_def)
  have q2: "queue (app (run (initial []) stale_completed)) = []"
    and g2: "gallery (app (run (initial []) stale_completed))
      = [\<lparr>id_item = ''g3'', src = ''data:image/png;base64,BALLOON'', prompt_item = ''A red balloon''\<rparr>]"
    by (simp_all add: run_stale_completed)
  from a have "gallery (app (step (Settle 0 (Inr ''data:image/png;base64,BALLOON'') ''g3'')
        (run (initial [cat, dog]) two_jobs)))
      = \<lparr>id_item = ''g3'', src = ''data:image/png;base64,BALLOON'', prompt_item = prompt balloon\<rparr>
        # gallery (app (run (initial [cat, dog]) two_jobs))"
    by blast
  then have c1: "gallery (app (step (Settle 0 (Inr ''data:image/png;base64,BALLOON'') ''g3'')
        (run (initial [cat, dog]) two_jobs)))
       = [\<lparr>id_item = ''g3'', src = ''data:image/png;base64,BALLOON'', prompt_item = ''A red balloon''\<rparr>,
          cat, dog]"
    by (simp add: g1 balloon_def)
  from a have "queue (app (step (Settle 0 (Inr ''data:image/png;base64,BALLOON'') ''g3'')
        (run (initial [cat, dog]) two_jobs)))
      = filter (\<lambda>j. id_job j \<noteq> id_job balloon) (queue (app (run (initial [cat, dog]) two_jobs)))"
    by blast
  then have c2: "queue (app (step (Settle 0 (Inr ''data:image/png;base64,BALLOON'') ''g3'')
        (run (initial [cat, dog]) two_jobs))) = [kite]"
    by (simp add: q1 balloon_def kite_def)
  from b have "queue (app (step (Settle 0 (Inr ''data:image/png;base64,AGAIN'') ''g4'')
        (run (initial []) stale_completed)))
      = filter (\<lambda>j. id_job j \<noteq> id_job balloon) (queue (app (run (initial []) stale_completed)))"
    by blast
  then have c3: "queue (app (step (Settle 0 (Inr ''data:image/png;base64,AGAIN'') ''g4'')
        (run (initial []) stale_completed))) = []"
    by (simp add: q2)
  from b have "gallery (app (step (Settle 0 (Inr ''data:image/png;base64,AGAIN'') ''g4'')
        (run (initial []) stale_completed)))
      = \<lparr>id_item = ''g4'', src = ''data:image/png;base64,AGAIN'', prompt_item = prompt balloon\<rparr>
        # gallery (app (run (initial []) stale_completed))"
    by blast
  then have c4: "gallery (app (step (Settle 0 (Inr ''data:image/png;base64,AGAIN'') ''g4'')
        (run (initial []) stale_completed)))
       = [\<lparr>id_item = ''g4'', src = ''data:image/png;base64,AGAIN'', prompt_item = ''A red balloon''\<rparr>,
          \<lparr>id_item = ''g3'', src = ''data:image/png;base64,BALLOON'', prompt_item = ''A red balloon''\<rparr>]"
    by (simp add: g2 balloon_def)
  from admissible_two_jobs j1 q1 c1 c2 admissible_stale_completed j2 q2 c3 c4 show ?thesis
    by blast
qed

section \<open>A failed provider call\<close>

text \<open>
  What \<^verbatim>\<open>processQueue\<close> awaits is \<^verbatim>\<open>generateImage\<close>, which rethrows everything as a
  fresh \<^verbatim>\<open>Error\<close>: the thrown value is an \<^verbatim>\<open>Error\<close> and the message recorded on the job
  is its message.
\<close>

lemma generateImage_catch_Error: "\<exists>m. generateImage_catch e = Error m None"
  by (cases e) (auto simp: generateImage_catch_def split: option.splits)

lemma processQueue_await_Error:
  assumes "processQueue_await ai job = Inl e"
  shows "e = Error (errorMessage e) None"
proof -
  from assms obtain e' where "e = generateImage_catch e'"
    by (auto simp: processQueue_await_def generateImage_def split: sum.splits)
  with generateImage_catch_Error [of e'] show ?thesis
    by (auto simp: errorMessage_def)
qed

lemma markFailed_absent: "i \<notin> id_job ` set q \<Longrightarrow> markFailed i m q = q"
  unfolding markFailed_def by (rule map_idI) auto

lemma markFailed_entry:
  assumes t: "tracked c" and J: "inflight c = [J]"
  shows "markFailed (id_job J) m (queue (app c))
    = map (\<lambda>j. if j = J\<lparr>status := Processing\<rparr> then J\<lparr>status := Failed, error := Some m\<rparr> else j)
        (queue (app c))"
  unfolding markFailed_def
proof (rule map_cong [OF refl])
  fix j assume j: "j \<in> set (queue (app c))"
  show "(if id_job j = id_job J then j\<lparr>status := Failed, error := Some m\<rparr> else j)
      = (if j = J\<lparr>status := Processing\<rparr> then J\<lparr>status := Failed, error := Some m\<rparr> else j)"
  proof (cases "id_job j = id_job J")
    case True
    with t J j have "j = J\<lparr>status := Processing\<rparr>"
      by (rule tracked_entry)
    then show ?thesis by simp
  next
    case False
    then have "j \<noteq> J\<lparr>status := Processing\<rparr>" by auto
    with False show ?thesis by simp
  qed
qed

lemma failed_stays_step:
  assumes t: "tracked c" and en: "enabled c e"
    and r: "case e of Tick snapshot \<Rightarrow> snapshot = queue (app c) | _ \<Rightarrow> True"
    and j: "j \<in> set (queue (app c))" and f: "status j = Failed"
  shows "j \<in> set (queue (app (step e c)))"
proof (cases e)
  case (AddToQueue p ar uuid)
  with j show ?thesis
    by (simp add: handleAddToQueue_def Let_def)
next
  case (Tick snapshot)
  with r have snap: "snapshot = queue (app c)" by simp
  show ?thesis
  proof (cases "fst (processQueue_begin snapshot (app c))")
    case None
    with begin_None [OF None] Tick j show ?thesis by simp
  next
    case (Some job)
    note b = begin_Some [OF Some]
    from b snap have job: "job \<in> set (queue (app c))" and p: "status job = Pending"
      by (auto simp: find_Some_iff)
    from t have d: "distinct (map id_job (queue (app c)))"
      by (simp add: tracked_def single_flight_def)
    have "id_job j \<noteq> id_job job"
    proof
      assume "id_job j = id_job job"
      with d j job have "j = job"
        by (rule same_id_same_job)
      with f p show False by simp
    qed
    with j have "j \<in> set (markProcessing (id_job job) (queue (app c)))"
      by (force simp: markProcessing_def)
    with Tick b show ?thesis by simp
  qed
next
  case (Settle k outcome uuid)
  from en Settle have "k < length (inflight c)" by simp
  with t obtain J where J: "inflight c = [J]" and k: "k = 0"
    unfolding tracked_def by (blast elim: single_flight_suspended)
  have "id_job j \<noteq> id_job J"
  proof
    assume "id_job j = id_job J"
    with t J j have "j = J\<lparr>status := Processing\<rparr>"
      by (rule tracked_entry)
    with f show False by simp
  qed
  with j have "j \<in> set (markCompleted (id_job J) (queue (app c)))"
    and "j \<in> set (markFailed (id_job J) (errorMessage x) (queue (app c)))" for x
    by (force simp: markCompleted_def markFailed_def)+
  with Settle J k show ?thesis
    by (cases outcome)
      (simp_all add: processQueue_resume_def processQueue_finally_def processQueue_try_def
        processQueue_catch_def)
next
  case (Upscale itemId newSrc)
  with j show ?thesis by (simp add: handleUpscaleImage_def)
next
  case (ImageUpload fs)
  with j show ?thesis by (simp add: onImagesChange_def split: option.splits)
next
  case (RemoveImage index)
  with j show ?thesis by simp
qed

lemma failed_stays_run:
  assumes "tracked c" and "admissible c es" and "rendered c es"
    and "j \<in> set (queue (app c))" and "status j = Failed"
  shows "j \<in> set (queue (app (run c es)))"
  using assms
proof (induction es arbitrary: c)
  case Nil
  then show ?case by simp
next
  case (Cons e es)
  from Cons.prems have en: "enabled c e" and ad: "admissible (step e c) es"
    and r: "case e of Tick snapshot \<Rightarrow> snapshot = queue (app c) | _ \<Rightarrow> True"
    and rs: "rendered (step e c) es"
    by simp_all
  from Cons.prems(1) en r have t': "tracked (step e c)"
    by (rule tracked_step)
  from Cons.prems(1) en r Cons.prems(4,5) have j': "j \<in> set (queue (app (step e c)))"
    by (rule failed_stays_step)
  from Cons.IH [OF t' ad rs j' Cons.prems(5)] show ?case
    by simp
qed

lemma begin_idle:
  "\<not> isProcessingRef s \<Longrightarrow>
     fst (processQueue_begin snapshot s) = find (\<lambda>j. status j = Pending) snapshot"
  by (cases snapshot) (simp_all add: processQueue_begin_def split: option.splits)

lemma step_failure:
  "step (Settle 0 (Inl (Error ''Request blocked: SAFETY.'' None)) ''g3'')
     (run (initial [cat, dog]) two_jobs)
   = \<lparr>app = \<lparr>referenceImages_state = [], queue = [failed_balloon, kite], gallery = [cat, dog],
             selectedImage = None, isProcessingRef = False\<rparr>,
      inflight = []\<rparr>"
  by (simp add: run_two_jobs busy_config_def busy_app_def failed_balloon_def operation_defs
      balloon_def kite_def)

lemma admissible_after_failure:
  "admissible (step (Settle 0 (Inl (Error ''Request blocked: SAFETY.'' None)) ''g3'')
     (run (initial [cat, dog]) two_jobs)) after_failure"
  unfolding step_failure
  by (simp add: after_failure_def failed_balloon_def operation_defs balloon_def kite_def)

lemma rendered_after_failure:
  "rendered (step (Settle 0 (Inl (Error ''Request blocked: SAFETY.'' None)) ''g3'')
     (run (initial [cat, dog]) two_jobs)) after_failure"
  unfolding step_failure
  by (simp add: after_failure_def failed_balloon_def operation_defs balloon_def kite_def)

lemma run_after_failure:
  "queue (app (run (step (Settle 0 (Inl (Error ''Request blocked: SAFETY.'' None)) ''g3'')
     (run (initial [cat, dog]) two_jobs)) after_failure)) = [failed_balloon]"
  unfolding step_failure
  by (simp add: after_failure_def failed_balloon_def operation_defs balloon_def kite_def)

text \<open>
  What holds of rendered runs: in a configuration in which the call for \<open>job\<close> is
  suspended, settling that call with an \<^verbatim>\<open>Error\<close> of message \<open>m\<close> replaces the job's
  entry by the job with status \<open>Failed\<close> and error \<open>m\<close> and changes no other entry; the
  gallery is unchanged; the busy flag is clear, so a tick whose closure holds the queue
  selects the first pending job, if any; and the failed entry stays in the queue, as it
  is, through every rendered continuation of the run.
\<close>

lemma rendered_failure_stays:
  assumes "admissible (initial g) es" and "rendered (initial g) es"
    and "inflight (run (initial g) es) = [job]"
    and "admissible (step (Settle 0 (Inl (Error m b)) uuid) (run (initial g) es)) es'"
    and "rendered (step (Settle 0 (Inl (Error m b)) uuid) (run (initial g) es)) es'"
  shows "job\<lparr>status := Processing\<rparr> \<in> set (queue (app (run (initial g) es)))
    \<and> queue (app (step (Settle 0 (Inl (Error m b)) uuid) (run (initial g) es)))
        = map (\<lambda>j. if j = job\<lparr>status := Processing\<rparr>
                    then job\<lparr>status := Failed, error := Some m\<rparr> else j)
            (queue (app (run (initial g) es)))
    \<and> gallery (app (step (Settle 0 (Inl (Error m b)) uuid) (run (initial g) es)))
        = gallery (app (run (initial g) es))
    \<and> \<not> isProcessingRef (app (step (Settle 0 (Inl (Error m b)) uuid) (run (initial g) es)))
    \<and> inflight (step (Settle 0 (Inl (Error m b)) uuid) (run (initial g) es)) = []
    \<and> fst (processQueue_begin
             (queue (app (step (Settle 0 (Inl (Error m b)) uuid) (run (initial g) es))))
             (app (step (Settle 0 (Inl (Error m b)) uuid) (run (initial g) es))))
        = find (\<lambda>j. status j = Pending)
            (queue (app (step (Settle 0 (Inl (Error m b)) uuid) (run (initial g) es))))
    \<and> job\<lparr>status := Failed, error := Some m\<rparr>
        \<in> set (queue (app (run (step (Settle 0 (Inl (Error m b)) uuid) (run (initial g) es)) es')))"
proof -
  let ?c = "run (initial g) es"
  let ?c' = "step (Settle 0 (Inl (Error m b)) uuid) ?c"
  let ?entry = "job\<lparr>status := Processing\<rparr>"
  let ?failed = "job\<lparr>status := Failed, error := Some m\<rparr>"
  have t: "tracked ?c"
    using assms(1,2) by (rule tracked_reached)
  note mem = tracked_suspended(2) [OF t assms(3)]
  have app': "app ?c' = processQueue_resume job (Inl (Error m b)) uuid (app ?c)"
    and flight: "inflight ?c' = []"
    by (simp_all add: assms(3))
  have "queue (app ?c') = markFailed (id_job job) m (queue (app ?c))"
    unfolding app'
    by (simp add: processQueue_resume_def processQueue_finally_def processQueue_catch_def
        errorMessage_def)
  also have "\<dots> = map (\<lambda>j. if j = ?entry then ?failed else j) (queue (app ?c))"
    using t assms(3) by (rule markFailed_entry)
  finally have q: "queue (app ?c') = map (\<lambda>j. if j = ?entry then ?failed else j) (queue (app ?c))" .
  have g: "gallery (app ?c') = gallery (app ?c)"
    unfolding app'
    by (simp add: processQueue_resume_def processQueue_finally_def processQueue_catch_def)
  have idle: "\<not> isProcessingRef (app ?c')"
    unfolding app' by (simp add: processQueue_resume_def processQueue_finally_def)
  then have nxt: "fst (processQueue_begin (queue (app ?c')) (app ?c'))
      = find (\<lambda>j. status j = Pending) (queue (app ?c'))"
    by (rule begin_idle)
  have en: "enabled ?c (Settle 0 (Inl (Error m b)) uuid)"
    by (simp add: assms(3))
  have t': "tracked ?c'"
    using t en by (rule tracked_step) simp
  from mem have "(\<lambda>j. if j = ?entry then ?failed else j) ?entry
      \<in> (\<lambda>j. if j = ?entry then ?failed else j) ` set (queue (app ?c))"
    by (rule imageI)
  then have "?failed \<in> set (queue (app ?c'))"
    unfolding q by simp
  with t' assms(4,5) have stays: "?failed \<in> set (queue (app (run ?c' es')))"
    by (rule failed_stays_run) simp
  from mem q g idle flight nxt stays show ?thesis
    by blast
qed


lemma rendered_failure_stays_example:
  "admissible (initial [cat, dog]) two_jobs \<and> rendered (initial [cat, dog]) two_jobs
   \<and> inflight (run (initial [cat, dog]) two_jobs) = [balloon]
   \<and> admissible (step (Settle 0 (Inl (Error ''Request blocked: SAFETY.'' None)) ''g3'')
        (run (initial [cat, dog]) two_jobs)) after_failure
   \<and> rendered (step (Settle 0 (Inl (Error ''Request blocked: SAFETY.'' None)) ''g3'')
        (run (initial [cat, dog]) two_jobs)) after_failure
   \<and> queue (app (step (Settle 0 (Inl (Error ''Request blocked: SAFETY.'' None)) ''g3'')
        (run (initial [cat, dog]) two_jobs)))
       = [balloon\<lparr>status := Failed, error := Some ''Request blocked: SAFETY.''\<rparr>, kite]
   \<and> gallery (app (step (Settle 0 (Inl (Error ''Request blocked: SAFETY.'' None)) ''g3'')
        (run (initial [cat, dog]) two_jobs))) = [cat, dog]
   \<and> fst (processQueue_begin
        (queue (app (step (Settle 0 (Inl (Error ''Request blocked: SAFETY.'' None)) ''g3'')
           (run (initial [cat, dog]) two_jobs))))
        (app (step (Settle 0 (Inl (Error ''Request blocked: SAFETY.'' None)) ''g3'')
           (run (initial [cat, dog]) two_jobs)))) = Some kite
   \<and> balloon\<lparr>status := Failed, error := Some ''Request blocked: SAFETY.''\<rparr>
       \<in> set (queue (app (run (step (Settle 0 (Inl (Error ''Request blocked: SAFETY.'' None)) ''g3'')
            (run (initial [cat, dog]) two_jobs)) after_failure)))"
proof -
  let ?c' = "step (Settle 0 (Inl (Error ''Request blocked: SAFETY.'' None)) ''g3'')
               (run (initial [cat, dog]) two_jobs)"
  note a = rendered_failure_stays [OF admissible_two_jobs rendered_two_jobs inflight_two_jobs
      admissible_after_failure rendered_after_failure]
  have q: "queue (app (run (initial [cat, dog]) two_jobs)) = [balloon\<lparr>status := Processing\<rparr>, kite]"
    and g: "gallery (app (run (initial [cat, dog]) two_jobs)) = [cat, dog]"
    by (simp_all add: run_two_jobs busy_config_def busy_app_def)
  from a have "queue (app ?c')
      = map (\<lambda>j. if j = balloon\<lparr>status := Processing\<rparr>
                  then balloon\<lparr>status := Failed, error := Some ''Request blocked: SAFETY.''\<rparr>
                  else j)
          (queue (app (run (initial [cat, dog]) two_jobs)))"
    by blast
  then have c1: "queue (app ?c')
      = [balloon\<lparr>status := Failed, error := Some ''Request blocked: SAFETY.''\<rparr>, kite]"
    by (simp add: q balloon_def kite_def)
  from a g have c2: "gallery (app ?c') = [cat, dog]"
    by simp
  from a have "fst (processQueue_begin (queue (app ?c')) (app ?c'))
      = find (\<lambda>j. status j = Pending) (queue (app ?c'))"
    by blast
  also have "\<dots> = Some kite"
    by (subst c1) (simp add: balloon_def kite_def)
  finally have c3: "fst (processQueue_begin (queue (app ?c')) (app ?c')) = Some kite" .
  from a have c4: "balloon\<lparr>status := Failed, error := Some ''Request blocked: SAFETY.''\<rparr>
      \<in> set (queue (app (run ?c' after_failure)))"
    by blast
  from admissible_two_jobs rendered_two_jobs inflight_two_jobs admissible_after_failure
    rendered_after_failure c1 c2 c3 c4
  show ?thesis
    by blast
qed

text \<open>
  C4 at a stale tick. After the provider has rejected the balloon job, the job is in the
  queue with status \<open>Failed\<close> and the message. The timer then fires with the callback of
  the render in which the job was pending: the tick selects the job from its closure, marks
  the failed entry as processing and calls the provider for it again. When this second
  call succeeds the entry is removed from the queue and a gallery item is made for the
  job: the failed job was retried, did not stay failed and did not stay in the queue.
\<close>

theorem stale_tick_retries_failed_job:
  "admissible (initial [cat, dog]) stale_retry_succeeds
   \<and> queue (app (run (initial [cat, dog]) (butlast (butlast stale_retry_succeeds))))
       = [failed_balloon, kite]
   \<and> queue (app (run (initial [cat, dog]) (butlast stale_retry_succeeds)))
       = [failed_balloon\<lparr>status := Processing\<rparr>, kite]
   \<and> inflight (run (initial [cat, dog]) (butlast stale_retry_succeeds)) = [balloon]
   \<and> queue (app (run (initial [cat, dog]) stale_retry_succeeds)) = [kite]
   \<and> gallery (app (run (initial [cat, dog]) stale_retry_succeeds))
       = [\<lparr>id_item = ''g4'', src = ''data:image/png;base64,BALLOON'',
           prompt_item = ''A red balloon''\<rparr>, cat, dog]"
  by (simp add: stale_defs scenario_defs operation_defs)

section \<open>Staging reference images\<close>

lemma promise_all_Readable: "promise_all (map (readAsDataURL \<circ> Readable) urls) = Some urls"
  by (induction urls) (simp_all add: readAsDataURL_def)

lemma promise_all_length: "promise_all ps = Some xs \<Longrightarrow> length xs = length ps"
  by (induction ps arbitrary: xs rule: promise_all.induct) (auto split: option.splits)

lemma slice0_take:
  assumes "c \<le> MAX_IMAGES"
  shows "slice0 xs (int MAX_IMAGES - int c) = take (MAX_IMAGES - c) xs"
proof -
  from assms have e: "int MAX_IMAGES - int c = int (MAX_IMAGES - c)"
    by simp
  have "slice0 xs (int (MAX_IMAGES - c)) = take (min (MAX_IMAGES - c) (length xs)) xs"
    by (simp add: slice0_def Let_def min_def)
  also have "\<dots> = take (MAX_IMAGES - c) xs"
    by (simp add: min_def)
  finally show ?thesis
    by (simp only: e)
qed

lemma upload_Readable:
  assumes "length images \<le> MAX_IMAGES"
  shows "handleImageUpload images (Some (map Readable new))
    = Some (images @ take (min (length new) (MAX_IMAGES - length images)) new)"
proof -
  have "slice0 (map Readable new) (int MAX_IMAGES - int (length images))
      = map Readable (take (MAX_IMAGES - length images) new)"
    using assms by (simp add: slice0_take take_map)
  moreover have "take (MAX_IMAGES - length images) new
      = take (min (length new) (MAX_IMAGES - length images)) new"
    by (simp add: min_def)
  ultimately show ?thesis
    by (simp add: handleImageUpload_def promise_all_Readable)
qed

lemma upload_bound:
  assumes "length images \<le> MAX_IMAGES" and "handleImageUpload images fs = Some r"
  shows "length r \<le> MAX_IMAGES"
proof -
  from assms(2) obtain target_files newImages where fs: "fs = Some target_files"
    and p: "promise_all (map readAsDataURL (slice0 target_files (int MAX_IMAGES - int (length images))))
              = Some newImages"
    and r: "r = images @ newImages"
    by (auto simp: handleImageUpload_def Let_def split: option.splits)
  from promise_all_length [OF p] have "length newImages \<le> MAX_IMAGES - length images"
    using assms(1) by (simp add: slice0_take)
  with assms(1) r show ?thesis by simp
qed

lemma remove_bound: "length (handleRemoveImage images index) \<le> length images"
  by (simp add: handleRemoveImage_def) (metis length_enumerate length_filter_le)

lemma refs_markProcessing: "j \<in> set (markProcessing i q) \<Longrightarrow> \<exists>k\<in>set q. referenceImages j = referenceImages k"
  by (auto simp: markProcessing_def split: if_splits)

lemma refs_markFailed: "j \<in> set (markFailed i m q) \<Longrightarrow> \<exists>k\<in>set q. referenceImages j = referenceImages k"
  by (auto simp: markFailed_def split: if_splits)

lemma refs_markCompleted: "j \<in> set (markCompleted i q) \<Longrightarrow> \<exists>k\<in>set q. referenceImages j = referenceImages k"
  by (auto simp: markCompleted_def)

lemma staged_bound_step:
  assumes "staged_bound c"
  shows "staged_bound (step e c)"
proof (cases e)
  case (AddToQueue p ar uuid)
  with assms show ?thesis
    by (auto simp: staged_bound_def handleAddToQueue_def Let_def)
next
  case (Tick snapshot)
  show ?thesis
  proof (cases "fst (processQueue_begin snapshot (app c))")
    case None
    with begin_None [OF None] Tick assms show ?thesis by simp
  next
    case (Some job)
    from begin_Some [OF Some] Tick assms show ?thesis
      by (auto simp: staged_bound_def dest!: refs_markProcessing)
  qed
next
  case (Settle k outcome uuid)
  with assms show ?thesis
    by (cases outcome)
      (auto simp: staged_bound_def processQueue_resume_def processQueue_finally_def
        processQueue_try_def processQueue_catch_def dest!: refs_markFailed refs_markCompleted)
next
  case (Upscale itemId newSrc)
  with assms show ?thesis
    by (simp add: staged_bound_def handleUpscaleImage_def)
next
  case (ImageUpload fs)
  with assms upload_bound [of "referenceImages_state (app c)" fs] show ?thesis
    by (auto simp: staged_bound_def onImagesChange_def split: option.splits)
next
  case (RemoveImage index)
  with assms remove_bound [of "referenceImages_state (app c)" index] show ?thesis
    by (simp add: staged_bound_def)
qed

lemma staged_bound_run: "staged_bound c \<Longrightarrow> staged_bound (run c es)"
  by (induction es arbitrary: c) (simp_all add: staged_bound_step)

lemma staged_bound_initial: "staged_bound (initial g)"
  by (simp add: staged_bound_def initial_def)

text \<open>
  C9: with \<open>c \<le> 4\<close> images staged, adding \<open>k\<close> new images (files whose read succeeds)
  appends the first \<open>min k (4 - c)\<close> of them, in order, and hands the result to
  \<^verbatim>\<open>onImagesChange\<close>: the files beyond the cap are not even read, and nothing is thrown.
  The staged count is then \<open>min (c + k) 4\<close>, and a job enqueued next carries exactly the
  staged images. In every configuration of a run at most 4 images are staged and every job
  of the queue holds at most 4.
\<close>

theorem staging_add_truncates:
  assumes "length (referenceImages_state s) \<le> 4"
  shows "MAX_IMAGES = 4
    \<and> handleImageUpload (referenceImages_state s) (Some (map Readable new))
        = Some (referenceImages_state s
                @ take (min (length new) (4 - length (referenceImages_state s))) new)
    \<and> referenceImages_state
         (onImagesChange (handleImageUpload (referenceImages_state s) (Some (map Readable new))) s)
        = referenceImages_state s
          @ take (min (length new) (4 - length (referenceImages_state s))) new
    \<and> length (referenceImages_state
         (onImagesChange (handleImageUpload (referenceImages_state s) (Some (map Readable new))) s))
        = min (length (referenceImages_state s) + length new) 4
    \<and> referenceImages (last (queue (handleAddToQueue p ar uuid
         (onImagesChange (handleImageUpload (referenceImages_state s) (Some (map Readable new))) s))))
        = referenceImages_state s
          @ take (min (length new) (4 - length (referenceImages_state s))) new
    \<and> length (referenceImages_state (app (run (initial g) es))) \<le> 4
    \<and> (\<forall>j\<in>set (queue (app (run (initial g) es))). length (referenceImages j) \<le> 4)"
proof -
  let ?images = "referenceImages_state s"
  let ?kept = "take (min (length new) (4 - length ?images)) new"
  have four: "MAX_IMAGES = 4"
    by (simp add: MAX_IMAGES_def)
  with assms have "length ?images \<le> MAX_IMAGES"
    by simp
  from upload_Readable [OF this, of new]
  have up: "handleImageUpload ?images (Some (map Readable new)) = Some (?images @ ?kept)"
    by (simp add: four)
  then have st: "referenceImages_state (onImagesChange (handleImageUpload ?images (Some (map Readable new))) s)
      = ?images @ ?kept"
    by (simp add: onImagesChange_def)
  have len: "length (?images @ ?kept) = min (length ?images + length new) 4"
    using assms by (simp add: min_def) arith
  have job: "referenceImages (last (queue (handleAddToQueue p ar uuid
         (onImagesChange (handleImageUpload ?images (Some (map Readable new))) s)))) = ?images @ ?kept"
    by (simp add: handleAddToQueue_def Let_def st)
  have "staged_bound (run (initial g) es)"
    using staged_bound_initial by (rule staged_bound_run)
  then have inv: "length (referenceImages_state (app (run (initial g) es))) \<le> 4"
    "\<forall>j\<in>set (queue (app (run (initial g) es))). length (referenceImages j) \<le> 4"
    by (simp_all add: staged_bound_def four)
  from four up st len job inv show ?thesis
    by (simp only: simp_thms)
qed


theorem staging_add_truncates_witness:
  "length (referenceImages_state (app (initial []))) \<le> 4
   \<and> handleImageUpload (referenceImages_state (app (initial []))) (Some (map Readable five_images))
       = Some [''data:image/png;base64,A1'', ''data:image/png;base64,A2'',
               ''data:image/png;base64,A3'', ''data:image/png;base64,A4'']
   \<and> referenceImages (last (queue (handleAddToQueue ''A red balloon'' AR_1_1 ''j1''
        (onImagesChange
           (handleImageUpload (referenceImages_state (app (initial []))) (Some (map Readable five_images)))
           (app (initial []))))))
       = [''data:image/png;base64,A1'', ''data:image/png;base64,A2'',
          ''data:image/png;base64,A3'', ''data:image/png;base64,A4'']
   \<and> length (referenceImages (hd (queue (app (run (initial [cat, dog]) two_jobs))))) \<le> 4"
proof -
  have h: "length (referenceImages_state (app (initial []))) \<le> 4"
    by (simp add: initial_def)
  note a = staging_add_truncates [OF h, of five_images "''A red balloon''" AR_1_1 "''j1''"
      "[cat, dog]" two_jobs]
  have staged: "referenceImages_state (app (initial [])) = []"
    by (simp add: initial_def)
  have kept: "take (min (length five_images) (4 - length ([]::string list))) five_images
      = [''data:image/png;base64,A1'', ''data:image/png;base64,A2'',
         ''data:image/png;base64,A3'', ''data:image/png;base64,A4'']"
    by (simp add: five_images_def)
  from a have "handleImageUpload (referenceImages_state (app (initial []))) (Some (map Readable five_images))
      = Some (referenceImages_state (app (initial []))
              @ take (min (length five_images) (4 - length (referenceImages_state (app (initial []))))) five_images)"
    by blast
  then have c1: "handleImageUpload (referenceImages_state (app (initial []))) (Some (map Readable five_images))
      = Some [''data:image/png;base64,A1'', ''data:image/png;base64,A2'',
              ''data:image/png;base64,A3'', ''data:image/png;base64,A4'']"
    by (simp only: staged kept append_Nil)
  from a have "referenceImages (last (queue (handleAddToQueue ''A red balloon'' AR_1_1 ''j1''
        (onImagesChange
           (handleImageUpload (referenceImages_state (app (initial []))) (Some (map Readable five_images)))
           (app (initial []))))))
      = referenceImages_state (app (initial []))
        @ take (min (length five_images) (4 - length (referenceImages_state (app (initial []))))) five_images"
    by blast
  then have c2: "referenceImages (last (queue (handleAddToQueue ''A red balloon'' AR_1_1 ''j1''
        (onImagesChange
           (handleImageUpload (referenceImages_state (app (initial []))) (Some (map Readable five_images)))
           (app (initial []))))))
      = [''data:image/png;base64,A1'', ''data:image/png;base64,A2'',
         ''data:image/png;base64,A3'', ''data:image/png;base64,A4'']"
    by (simp only: staged kept append_Nil)
  have "hd (queue (app (run (initial [cat, dog]) two_jobs)))
      \<in> set (queue (app (run (initial [cat, dog]) two_jobs)))"
    by (simp add: run_two_jobs busy_config_def busy_app_def)
  with a have c3: "length (referenceImages (hd (queue (app (run (initial [cat, dog]) two_jobs))))) \<le> 4"
    by blast
  from h c1 c2 c3 show ?thesis
    by blast
qed

section \<open>Empty prompts\<close>

text \<open>
  Against C6 as stated: the enqueue operation of \<^verbatim>\<open>App\<close> checks nothing; given the
  empty prompt it appends a job, so that the queue changes.
\<close>

theorem empty_prompt_enqueued:
  "queue (handleAddToQueue [] AR_1_1 ''j1'' (app (initial [])))
     = [\<lparr>id_job = ''j1'', prompt = [], referenceImages = [], aspectRatio = AR_1_1,
         status = Pending, error = None\<rparr>]
   \<and> queue (handleAddToQueue [] AR_1_1 ''j1'' (app (initial []))) \<noteq> queue (app (initial []))"
  by (simp add: handleAddToQueue_def initial_def)

lemma trim_Nil_iff: "trim p = [] \<longleftrightarrow> (\<forall>c\<in>set p. whiteSpace c)"
proof
  assume "trim p = []"
  then have "\<forall>c\<in>set (dropWhile whiteSpace p). whiteSpace c"
    by (simp add: trim_def)
  then have "dropWhile whiteSpace p = []"
    by (cases "dropWhile whiteSpace p") (auto simp: dropWhile_eq_Cons_conv)
  then show "\<forall>c\<in>set p. whiteSpace c"
    by simp
next
  assume "\<forall>c\<in>set p. whiteSpace c"
  then have "dropWhile whiteSpace p = []"
    unfolding dropWhile_eq_Nil_conv .
  then show "trim p = []"
    unfolding trim_def by (simp only: dropWhile.simps rev.simps)
qed

text \<open>
  C6, as the code has it: the check is the guard of the form. A prompt is blank, that is
  empty after trimming, exactly when each of its code units is white space (the empty
  prompt is blank). \<open>handleSubmit\<close> with a blank prompt, or while a submission is under
  way, changes neither the form nor the application, so no job is created; with a prompt
  that is not blank, and no submission under way, it calls the enqueue operation with that
  prompt and clears the form; and the enqueue operation itself appends a pending job
  whatever the prompt is.
\<close>

theorem form_rejects_empty_prompt:
  "trim [] = []
   \<and> (trim (prompt_panel panel) = [] \<longleftrightarrow> (\<forall>c\<in>set (prompt_panel panel). whiteSpace c))
   \<and> (trim (prompt_panel panel) = [] \<or> isAdding panel \<longrightarrow>
        handleSubmit uuid (panel, s) = (panel, s))
   \<and> (trim (prompt_panel panel) \<noteq> [] \<and> \<not> isAdding panel \<longrightarrow>
        handleSubmit uuid (panel, s)
          = (panel\<lparr>prompt_panel := [], isAdding := False\<rparr>,
             handleAddToQueue (prompt_panel panel) (aspectRatio_panel panel) uuid s))
   \<and> queue (handleAddToQueue p ar uuid s)
       = queue s @ [\<lparr>id_job = uuid, prompt = p, referenceImages = referenceImages_state s,
                     aspectRatio = ar, status = Pending, error = None\<rparr>]"
proof -
  have "trim [] = []"
    by (simp add: trim_def)
  moreover note trim_Nil_iff [of "prompt_panel panel"]
  moreover have "handleSubmit uuid (panel, s) = (panel, s)"
    if "trim (prompt_panel panel) = [] \<or> isAdding panel"
    using that by (auto simp: handleSubmit_def)
  moreover have "handleSubmit uuid (panel, s)
      = (panel\<lparr>prompt_panel := [], isAdding := False\<rparr>,
         handleAddToQueue (prompt_panel panel) (aspectRatio_panel panel) uuid s)"
    if "trim (prompt_panel panel) \<noteq> [] \<and> \<not> isAdding panel"
    using that by (simp add: handleSubmit_def)
  moreover have "queue (handleAddToQueue p ar uuid s)
      = queue s @ [\<lparr>id_job = uuid, prompt = p, referenceImages = referenceImages_state s,
                    aspectRatio = ar, status = Pending, error = None\<rparr>]"
    by (simp add: handleAddToQueue_def)
  ultimately show ?thesis
    by blast
qed

lemma trim_blank: "trim [CHR 0x20, CHR 0xA0, CHR 0x09] = []"
  by (simp add: trim_def whiteSpace_def)

lemma trim_balloon: "trim ''A red balloon'' \<noteq> []"
  by (simp add: trim_def whiteSpace_def)

theorem form_rejects_empty_prompt_witness:
  "trim (prompt_panel blank_panel) = []
   \<and> handleSubmit ''j1'' (blank_panel, app (initial [])) = (blank_panel, app (initial []))
   \<and> trim (prompt_panel balloon_panel) \<noteq> [] \<and> \<not> isAdding balloon_panel
   \<and> queue (snd (handleSubmit ''j1'' (balloon_panel, app (initial [])))) = [balloon]
   \<and> prompt_panel (fst (handleSubmit ''j1'' (balloon_panel, app (initial [])))) = []"
proof -
  note a = form_rejects_empty_prompt [of blank_panel "''j1''" "app (initial [])"]
  note b = form_rejects_empty_prompt [of balloon_panel "''j1''" "app (initial [])"]
  have h1: "trim (prompt_panel blank_panel) = []"
    by (simp add: blank_panel_def trim_blank)
  have h2: "trim (prompt_panel balloon_panel) \<noteq> [] \<and> \<not> isAdding balloon_panel"
    using trim_balloon by (simp add: balloon_panel_def)
  from a h1 have c1: "handleSubmit ''j1'' (blank_panel, app (initial [])) = (blank_panel, app (initial []))"
    by blast
  from b h2 have sub: "handleSubmit ''j1'' (balloon_panel, app (initial []))
      = (balloon_panel\<lparr>prompt_panel := [], isAdding := False\<rparr>,
         handleAddToQueue (prompt_panel balloon_panel) (aspectRatio_panel balloon_panel) ''j1''
           (app (initial [])))"
    by blast
  have c2: "queue (snd (handleSubmit ''j1'' (balloon_panel, app (initial [])))) = [balloon]"
    unfolding sub by (simp add: handleAddToQueue_def balloon_panel_def initial_def balloon_def)
  have c3: "prompt_panel (fst (handleSubmit ''j1'' (balloon_panel, app (initial [])))) = []"
    unfolding sub by simp
  from h1 c1 h2 c2 c3 show ?thesis
    by blast
qed

section \<open>Reference images in the request\<close>

lemma part_AA: "fileToGenerativePart ''data:image/png;base64,AA'' = Inr (InlineData ''image/png'' ''AA'')"
  by code_simp

lemma part_BB: "fileToGenerativePart ''data:image/png;base64,BB'' = Inr (InlineData ''image/png'' ''BB'')"
  by code_simp

text \<open>
  Against C7 as stated: the version of \<^verbatim>\<open>generateImage\<close> beside \<^verbatim>\<open>App.tsx\<close>, given
  two well-formed reference images, builds a request with the first image and the prompt;
  the part of the second image is not in it.
\<close>

theorem second_image_dropped:
  "multimodalRequest ''blend them'' ''data:image/png;base64,AA'' [''data:image/png;base64,BB'']
     = Inr \<lparr>model = ''gemini-2.5-flash-image-preview'',
            parts = [InlineData ''image/png'' ''AA'', TextPart ''blend them''],
            responseModalities = [IMAGE, TEXT]\<rparr>
   \<and> fileToGenerativePart ''data:image/png;base64,BB'' = Inr (InlineData ''image/png'' ''BB'')
   \<and> InlineData ''image/png'' ''BB'' \<notin> set [InlineData ''image/png'' ''AA'', TextPart ''blend them'']"
  by (simp add: multimodalRequest_def part_AA part_BB)

lemma map_parts_all:
  "map fileToGenerativePart refs = map Inr imageParts \<Longrightarrow>
     map_fileToGenerativePart refs = Inr imageParts"
proof (induction refs arbitrary: imageParts)
  case Nil
  then show ?case by simp
next
  case (Cons r refs)
  then obtain ip ips where "imageParts = ip # ips" and "fileToGenerativePart r = Inr ip"
    and "map fileToGenerativePart refs = map Inr ips"
    by (cases imageParts) auto
  with Cons.IH show ?case by simp
qed

text \<open>
  C7, as the code has it. In the service version without \<^verbatim>\<open>upscaleImage\<close>, when every
  reference image converts to a part, the request holds these parts, in order, followed by
  the text prompt, and \<^verbatim>\<open>generateImage\<close> answers from what the API returns for exactly
  this request. In the version beside \<^verbatim>\<open>App.tsx\<close>, when the first reference image
  converts to a part, the request holds that part followed by the text prompt, whatever
  the other images are, and \<^verbatim>\<open>generateImage\<close> answers from what the API returns for
  exactly this request; in every case it answers as it does for the first image alone.
\<close>

theorem reference_images_in_request:
  "(map fileToGenerativePart refs = map Inr imageParts \<longrightarrow>
      multimodalRequest_all p refs
        = Inr \<lparr>model = ''gemini-2.5-flash-image-preview'',
               parts = imageParts @ [TextPart p],
               responseModalities = [IMAGE, TEXT]\<rparr>)
   \<and> (refs \<noteq> [] \<and> multimodalRequest_all p refs = Inr request \<longrightarrow>
        generateImage_all ai p ar refs
          = (case generateContent ai request of
               Inl e \<Rightarrow> Inl (generateImage_catch e)
             | Inr response \<Rightarrow>
                 (case multimodalResult response of
                    Inl e \<Rightarrow> Inl (generateImage_catch e)
                  | Inr imageUrl \<Rightarrow> Inr imageUrl)))
   \<and> (fileToGenerativePart first = Inr imagePart \<longrightarrow>
        multimodalRequest p first rest
          = Inr \<lparr>model = ''gemini-2.5-flash-image-preview'',
                 parts = [imagePart, TextPart p],
                 responseModalities = [IMAGE, TEXT]\<rparr>)
   \<and> (multimodalRequest p first rest = Inr request \<longrightarrow>
        generateImage ai p ar (first # rest)
          = (case generateContent ai request of
               Inl e \<Rightarrow> Inl (generateImage_catch e)
             | Inr response \<Rightarrow>
                 (case multimodalResult response of
                    Inl e \<Rightarrow> Inl (generateImage_catch e)
                  | Inr imageUrl \<Rightarrow> Inr imageUrl)))
   \<and> multimodalRequest p first rest = multimodalRequest p first []
   \<and> generateImage ai p ar (first # rest) = generateImage ai p ar [first]"
proof -
  have all: "multimodalRequest_all p refs
      = Inr \<lparr>model = ''gemini-2.5-flash-image-preview'', parts = imageParts @ [TextPart p],
             responseModalities = [IMAGE, TEXT]\<rparr>"
    if "map fileToGenerativePart refs = map Inr imageParts"
    using map_parts_all [OF that] by (simp add: multimodalRequest_all_def)
  have sent_all: "generateImage_all ai p ar refs
      = (case generateContent ai request of
           Inl e \<Rightarrow> Inl (generateImage_catch e)
         | Inr response \<Rightarrow>
             (case multimodalResult response of
                Inl e \<Rightarrow> Inl (generateImage_catch e)
              | Inr imageUrl \<Rightarrow> Inr imageUrl))"
    if "refs \<noteq> [] \<and> multimodalRequest_all p refs = Inr request"
    using that by (simp add: generateImage_all_def generateImage_try_all_def split: sum.splits)
  have first: "multimodalRequest p first rest
      = Inr \<lparr>model = ''gemini-2.5-flash-image-preview'', parts = [imagePart, TextPart p],
             responseModalities = [IMAGE, TEXT]\<rparr>"
    if "fileToGenerativePart first = Inr imagePart"
    using that by (simp add: multimodalRequest_def)
  have sent: "generateImage ai p ar (first # rest)
      = (case generateContent ai request of
           Inl e \<Rightarrow> Inl (generateImage_catch e)
         | Inr response \<Rightarrow>
             (case multimodalResult response of
                Inl e \<Rightarrow> Inl (generateImage_catch e)
              | Inr imageUrl \<Rightarrow> Inr imageUrl))"
    if "multimodalRequest p first rest = Inr request"
    using that by (simp add: generateImage_def generateImage_try_def split: sum.splits)
  have alone: "multimodalRequest p first rest = multimodalRequest p first []"
    by (simp add: multimodalRequest_def)
  then have same: "generateImage ai p ar (first # rest) = generateImage ai p ar [first]"
    by (simp add: generateImage_def generateImage_try_def)
  from all sent_all first sent alone same show ?thesis
    by blast
qed


theorem reference_images_in_request_witness:
  "map fileToGenerativePart [''data:image/png;base64,AA'', ''data:image/png;base64,BB'']
     = map Inr [InlineData ''image/png'' ''AA'', InlineData ''image/png'' ''BB'']
   \<and> multimodalRequest_all ''blend them'' [''data:image/png;base64,AA'', ''data:image/png;base64,BB'']
       = Inr \<lparr>model = ''gemini-2.5-flash-image-preview'',
              parts = [InlineData ''image/png'' ''AA'', InlineData ''image/png'' ''BB'',
                       TextPart ''blend them''],
              responseModalities = [IMAGE, TEXT]\<rparr>
   \<and> generateImage_all echo_ai ''blend them'' AR_1_1
         [''data:image/png;base64,AA'', ''data:image/png;base64,BB'']
       = Inr ''data:image/png;base64,BB''
   \<and> multimodalRequest ''blend them'' ''data:image/png;base64,AA'' [''data:image/png;base64,BB'']
       = Inr \<lparr>model = ''gemini-2.5-flash-image-preview'',
              parts = [InlineData ''image/png'' ''AA'', TextPart ''blend them''],
              responseModalities = [IMAGE, TEXT]\<rparr>
   \<and> generateImage echo_ai ''blend them'' AR_1_1
         [''data:image/png;base64,AA'', ''data:image/png;base64,BB'']
       = Inr ''data:image/png;base64,AA''"
proof -
  let ?refs = "[''data:image/png;base64,AA'', ''data:image/png;base64,BB'']"
  let ?all = "\<lparr>model = ''gemini-2.5-flash-image-preview'',
              parts = [InlineData ''image/png'' ''AA'', InlineData ''image/png'' ''BB'',
                       TextPart ''blend them''],
              responseModalities = [IMAGE, TEXT]\<rparr>"
  let ?one = "\<lparr>model = ''gemini-2.5-flash-image-preview'',
              parts = [InlineData ''image/png'' ''AA'', TextPart ''blend them''],
              responseModalities = [IMAGE, TEXT]\<rparr>"
  note a = reference_images_in_request [of ?refs
      "[InlineData ''image/png'' ''AA'', InlineData ''image/png'' ''BB'']" "''blend them''"
      ?all echo_ai AR_1_1 "''data:image/png;base64,AA''" "InlineData ''image/png'' ''AA''"
      "[''data:image/png;base64,BB'']"]
  note b = reference_images_in_request [of ?refs
      "[InlineData ''image/png'' ''AA'', InlineData ''image/png'' ''BB'']" "''blend them''"
      ?one echo_ai AR_1_1 "''data:image/png;base64,AA''" "InlineData ''image/png'' ''AA''"
      "[''data:image/png;base64,BB'']"]
  have h: "map fileToGenerativePart ?refs
      = map Inr [InlineData ''image/png'' ''AA'', InlineData ''image/png'' ''BB'']"
    by (simp add: part_AA part_BB)
  from a h have c1: "multimodalRequest_all ''blend them'' ?refs = Inr ?all"
    by simp
  have ne: "?refs \<noteq> []"
    by simp
  from a ne c1 have "generateImage_all echo_ai ''blend them'' AR_1_1 ?refs
      = (case generateContent echo_ai ?all of
           Inl e \<Rightarrow> Inl (generateImage_catch e)
         | Inr response \<Rightarrow>
             (case multimodalResult response of
                Inl e \<Rightarrow> Inl (generateImage_catch e)
              | Inr imageUrl \<Rightarrow> Inr imageUrl))"
    by blast
  then have c2: "generateImage_all echo_ai ''blend them'' AR_1_1 ?refs = Inr ''data:image/png;base64,BB''"
    by (simp add: echo_ai_def multimodalResult_def isInlineData_def)
  from b part_AA
  have c3: "multimodalRequest ''blend them'' ''data:image/png;base64,AA'' [''data:image/png;base64,BB'']
      = Inr ?one"
    by blast
  with b have "generateImage echo_ai ''blend them'' AR_1_1 ?refs
      = (case generateContent echo_ai ?one of
           Inl e \<Rightarrow> Inl (generateImage_catch e)
         | Inr response \<Rightarrow>
             (case multimodalResult response of
                Inl e \<Rightarrow> Inl (generateImage_catch e)
              | Inr imageUrl \<Rightarrow> Inr imageUrl))"
    by blast
  then have c4: "generateImage echo_ai ''blend them'' AR_1_1 ?refs = Inr ''data:image/png;base64,AA''"
    by (simp add: echo_ai_def multimodalResult_def isInlineData_def)
  from h c1 c2 c3 c4 show ?thesis
    by blast
qed

end
